theory Spec2Isabelle
  imports Main "HOL-Library.AList"
begin

section \<open>Data model\<close>

text \<open>
  The exceptions the code raises: \<open>NotSupportError\<close> (aerich.exceptions, raised by the
  SQLite DDL generator), \<open>ValueError\<close> (version name too long, or \<open>int()\<close> on
  something that is not a number) and \<open>KeyError\<close> (a subscript on a dict with a missing key). Each carries its message.
\<close>

datatype error = NotSupportError string | ValueError string | KeyError string

text \<open>
  The class of a field, as far as the code inspects it with \<open>isinstance\<close>: a plain
  column, a foreign key, a many-to-many relation or one of the two backward relations.
\<close>

datatype role =
    Plain
  | ForeignKeyFieldInstance
  | ManyToManyFieldInstance
  | BackwardFKRelation
  | BackwardOneToOneRelation

text \<open>
  A field object with the attributes that \<open>migrate.py\<close> reads: \<open>model_field_name\<close>,
  \<open>null\<close>, \<open>default\<close>, \<open>description\<close>, \<open>index\<close>, \<open>unique\<close> and, for a
  many-to-many field, \<open>through\<close>; \<open>source_field\<close> and \<open>field_type\<close> are read by
  \<open>describe\<close> only.
\<close>

record field =
  model_field_name :: string
  source_field :: "string option"
  field_type :: string
  f_null :: bool
  f_unique :: bool
  f_index :: bool
  f_default :: "string option"
  description :: "string option"
  role :: role
  through :: string

text \<open>The values stored in the dict that \<open>describe(serializable=True)\<close> returns.\<close>

datatype jval = JStr string | JBool bool | JNone | JRole role

definition jopt :: "string option \<Rightarrow> jval" where
  "jopt v = (case v of None \<Rightarrow> JNone | Some s \<Rightarrow> JStr s)"

text \<open>
  Modelled from the spec: \<open>Field.describe\<close> belongs to the ORM library and is not part
  of the sources. The spec's FieldDescriptor has name, db column name, declared type,
  nullable flag, unique flag, indexed flag, default value, description and the role tag;
  the dict below has one key for each, always in this order, so that two such dicts are
  equal as Python dicts exactly when they are equal as lists.
\<close>

definition describe :: "field \<Rightarrow> (string \<times> jval) list" where
  "describe f =
     [(''name'', JStr (model_field_name f)),
      (''field_type'', JStr (field_type f)),
      (''db_column'', JStr (case source_field f of None \<Rightarrow> model_field_name f | Some c \<Rightarrow> c)),
      (''nullable'', JBool (f_null f)),
      (''unique'', JBool (f_unique f)),
      (''indexed'', JBool (f_index f)),
      (''default'', jopt (f_default f)),
      (''description'', jopt (description f)),
      (''role'', JRole (role f))]"

text \<open>\<open>d.pop(k)\<close> on a dict kept as an association list (the key is present in every use).\<close>

definition pop :: "'k \<Rightarrow> ('k \<times> 'v) list \<Rightarrow> ('k \<times> 'v) list" where
  "pop k d = filter (\<lambda>kv. fst kv \<noteq> k) d"

text \<open>
  A model class: its table name and the parts of \<open>_meta\<close> that the diff reads. Dicts are
  association lists in insertion order, as Python iterates them.
\<close>

record model =
  table :: string
  fields_map :: "(string \<times> field) list"
  indexes :: "string list list"
  unique_together :: "string list list"
  fk_fields :: "string list"

text \<open>
  One call of a method of the DDL generator \<open>cls.ddl\<close>, with its arguments. The base
  class \<open>BaseDDL\<close> is not part of the sources, so a generator is a parameter: a function
  from the call to the SQL text it returns, or to the exception it raises.
\<close>

datatype ddl_call =
    ddl_create_table model
  | ddl_drop_table model
  | ddl_add_column model field
  | ddl_drop_column model string
  | ddl_modify_column model field
  | ddl_rename_column model string field
  | ddl_add_index model "string list" bool
  | ddl_drop_index model "string list" bool
  | ddl_add_fk model field
  | ddl_drop_fk model field
  | ddl_create_m2m_table model field
  | ddl_drop_m2m field
  | ddl_alter_column_default model field
  | ddl_alter_column_null model field
  | ddl_set_comment model field

type_synonym ddl = "ddl_call \<Rightarrow> error + string"

section \<open>The SQLite generator\<close>

text \<open>
  \<open>SqliteDDL\<close> overrides three methods of its base class, each with a body that only
  raises; every other call goes to the base class.
\<close>

definition SqliteDDL :: "ddl \<Rightarrow> ddl" where
  "SqliteDDL base c =
     (case c of
        ddl_drop_column m column_name \<Rightarrow> Inl (NotSupportError ''Drop column is not support in SQLite.'')
      | ddl_modify_column m field_object \<Rightarrow> Inl (NotSupportError ''Modify column is not support in SQLite.'')
      | ddl_rename_column m old_column_name field_object \<Rightarrow>
          Inl (NotSupportError ''Rename column is not support in SQLite.'')
      | _ \<Rightarrow> base c)"

section \<open>The class state of \<open>Migrate\<close>\<close>

text \<open>
  The class attributes that the diff mutates (the leading underscore of a private name is
  dropped), and \<open>asked\<close>: the trace of the calls of \<open>ask_rename_column\<close>, oldest
  first, which records the interaction with the user.
\<close>

record Migrate =
  upgrade_operators :: "string list"
  downgrade_operators :: "string list"
  upgrade_fk_m2m_index_operators :: "string list"
  downgrade_fk_m2m_index_operators :: "string list"
  upgrade_m2m :: "string list"
  downgrade_m2m :: "string list"
  column_reflex :: "(string \<times> string) list"
  asked :: "(string \<times> string) list"

text \<open>The state of a fresh process: every class attribute as the class body sets it.\<close>

definition Migrate_class :: Migrate where
  "Migrate_class =
     \<lparr>upgrade_operators = [], downgrade_operators = [],
      upgrade_fk_m2m_index_operators = [], downgrade_fk_m2m_index_operators = [],
      upgrade_m2m = [], downgrade_m2m = [], column_reflex = [], asked = []\<rparr>"

definition add_operator :: "string \<Rightarrow> bool \<Rightarrow> bool \<Rightarrow> Migrate \<Rightarrow> Migrate" where
  "add_operator operator upgrade fk st =
     (if upgrade then
        (if fk then st\<lparr>upgrade_fk_m2m_index_operators := upgrade_fk_m2m_index_operators st @ [operator]\<rparr>
         else st\<lparr>upgrade_operators := upgrade_operators st @ [operator]\<rparr>)
      else
        (if fk then st\<lparr>downgrade_fk_m2m_index_operators := downgrade_fk_m2m_index_operators st @ [operator]\<rparr>
         else st\<lparr>downgrade_operators := downgrade_operators st @ [operator]\<rparr>))"

section \<open>The model differ\<close>

text \<open>Sequencing of steps that may raise: the first exception ends the run.\<close>

definition and_then :: "error + 'a \<Rightarrow> ('a \<Rightarrow> error + 'b) \<Rightarrow> error + 'b" where
  "and_then r f = (case r of Inl e \<Rightarrow> Inl e | Inr x \<Rightarrow> f x)"

text \<open>
  \<open>cls._add_operator(<call of the generator>, upgrade, fk)\<close>: the argument is evaluated
  first, so an exception of the generator leaves the lists as they are.
\<close>

definition emit :: "error + string \<Rightarrow> bool \<Rightarrow> bool \<Rightarrow> Migrate \<Rightarrow> error + Migrate" where
  "emit r upgrade fk st = and_then r (\<lambda>operator. Inr (add_operator operator upgrade fk st))"

definition is_fk_m2m :: "field \<Rightarrow> bool" where
  "is_fk_m2m f = (role f = ForeignKeyFieldInstance \<or> role f = ManyToManyFieldInstance)"

definition add_model :: "ddl \<Rightarrow> model \<Rightarrow> error + string" where
  "add_model d m = d (ddl_create_table m)"

definition remove_model :: "ddl \<Rightarrow> model \<Rightarrow> error + string" where
  "remove_model d m = d (ddl_drop_table m)"

definition resolve_fk_fields_name :: "model \<Rightarrow> string list \<Rightarrow> string list" where
  "resolve_fk_fields_name m fields_name =
     map (\<lambda>field_name. if field_name \<in> set (fk_fields m) then field_name @ ''_id'' else field_name)
       fields_name"

definition remove_index :: "ddl \<Rightarrow> model \<Rightarrow> string list \<Rightarrow> bool \<Rightarrow> error + string" where
  "remove_index d m fields_name unique = d (ddl_drop_index m (resolve_fk_fields_name m fields_name) unique)"

definition add_index :: "ddl \<Rightarrow> model \<Rightarrow> string list \<Rightarrow> bool \<Rightarrow> error + string" where
  "add_index d m fields_name unique = d (ddl_add_index m (resolve_fk_fields_name m fields_name) unique)"

text \<open>
  \<open>_exclude_field\<close>: a backward relation is always excluded; a many-to-many field is
  excluded when its join table was already seen in this direction, and is recorded
  otherwise.
\<close>

definition exclude_field :: "field \<Rightarrow> bool \<Rightarrow> Migrate \<Rightarrow> bool \<times> Migrate" where
  "exclude_field f upgrade st =
     (if role f = ManyToManyFieldInstance then
        (if upgrade then
           (if through f \<in> set (upgrade_m2m st) then (True, st)
            else (False, st\<lparr>upgrade_m2m := upgrade_m2m st @ [through f]\<rparr>))
         else
           (if through f \<in> set (downgrade_m2m st) then (True, st)
            else (False, st\<lparr>downgrade_m2m := downgrade_m2m st @ [through f]\<rparr>)))
      else (role f = BackwardFKRelation \<or> role f = BackwardOneToOneRelation, st))"

definition add_field :: "ddl \<Rightarrow> model \<Rightarrow> field \<Rightarrow> error + string" where
  "add_field d m f =
     (if role f = ForeignKeyFieldInstance then d (ddl_add_fk m f)
      else if role f = ManyToManyFieldInstance then d (ddl_create_m2m_table m f)
      else d (ddl_add_column m f))"

definition alter_default :: "ddl \<Rightarrow> model \<Rightarrow> field \<Rightarrow> error + string" where
  "alter_default d m f = d (ddl_alter_column_default m f)"

definition alter_null :: "ddl \<Rightarrow> model \<Rightarrow> field \<Rightarrow> error + string" where
  "alter_null d m f = d (ddl_alter_column_null m f)"

definition set_comment :: "ddl \<Rightarrow> model \<Rightarrow> field \<Rightarrow> error + string" where
  "set_comment d m f = d (ddl_set_comment m f)"

definition modify_field :: "ddl \<Rightarrow> model \<Rightarrow> field \<Rightarrow> error + string" where
  "modify_field d m f = d (ddl_modify_column m f)"

definition rename_field :: "ddl \<Rightarrow> model \<Rightarrow> string \<Rightarrow> field \<Rightarrow> error + string" where
  "rename_field d m old_cloumn_name f = d (ddl_rename_column m old_cloumn_name f)"

definition remove_field :: "ddl \<Rightarrow> model \<Rightarrow> field \<Rightarrow> error + string" where
  "remove_field d m f =
     (if role f = ForeignKeyFieldInstance then d (ddl_drop_fk m f)
      else if role f = ManyToManyFieldInstance then d (ddl_drop_m2m f)
      else d (ddl_drop_column m (model_field_name f)))"

text \<open>
  The body of the first loop of \<open>diff_model\<close> for a key that both models have, first
  half: the two descriptions without \<open>unique\<close> and \<open>indexed\<close> are compared, and a
  difference on a field that is no relation gives a column modification (on postgres
  preceded by the separate statements for null, default and comment).
\<close>

definition diff_column ::
  "ddl \<Rightarrow> string \<Rightarrow> model \<Rightarrow> field \<Rightarrow> field \<Rightarrow> bool \<Rightarrow> Migrate \<Rightarrow> error + Migrate" where
  "diff_column d dialect new_model old_field new_field upgrade st =
     (if \<not> is_fk_m2m new_field
         \<and> pop ''indexed'' (pop ''unique'' (describe new_field))
           \<noteq> pop ''indexed'' (pop ''unique'' (describe old_field))
      then
        and_then
          (if dialect = ''postgres'' then
             and_then
               (if f_null new_field \<noteq> f_null old_field
                then emit (alter_null d new_model new_field) upgrade False st else Inr st)
               (\<lambda>st1. and_then
                  (if f_default new_field \<noteq> f_default old_field
                   then emit (alter_default d new_model new_field) upgrade False st1 else Inr st1)
                  (\<lambda>st2.
                     if description new_field \<noteq> description old_field
                     then emit (set_comment d new_model new_field) upgrade False st2 else Inr st2))
           else Inr st)
          (\<lambda>st3. emit (modify_field d new_model new_field) upgrade False st3)
      else Inr st)"

text \<open>Second half of that body: the \<open>if\<close>/\<open>elif\<close> on the index and unique flags.\<close>

definition diff_column_index ::
  "ddl \<Rightarrow> model \<Rightarrow> model \<Rightarrow> field \<Rightarrow> field \<Rightarrow> bool \<Rightarrow> Migrate \<Rightarrow> error + Migrate" where
  "diff_column_index d old_model new_model old_field new_field upgrade st =
     (if (f_index old_field \<and> \<not> f_index new_field) \<or> (f_unique old_field \<and> \<not> f_unique new_field)
      then emit (remove_index d old_model [model_field_name old_field] (f_unique old_field))
             upgrade (is_fk_m2m old_field) st
      else if (f_index new_field \<and> \<not> f_index old_field) \<or> (f_unique new_field \<and> \<not> f_unique old_field)
      then emit (add_index d new_model [model_field_name new_field] (f_unique new_field))
             upgrade (is_fk_m2m new_field) st
      else Inr st)"

text \<open>
  The first loop of \<open>diff_model\<close>, over the fields of the new model; it collects in
  \<open>new_model_changed\<close> the fields that the old model does not have.
\<close>

fun diff_new_keys ::
  "ddl \<Rightarrow> string \<Rightarrow> model \<Rightarrow> model \<Rightarrow> bool \<Rightarrow> (string \<times> field) list
   \<Rightarrow> (string \<times> field) list \<Rightarrow> Migrate \<Rightarrow> error + ((string \<times> field) list \<times> Migrate)" where
  "diff_new_keys d dialect old_model new_model upgrade [] new_model_changed st =
     Inr (new_model_changed, st)"
| "diff_new_keys d dialect old_model new_model upgrade ((new_key, new_field) # rest) new_model_changed st =
     (let (excluded, st1) = exclude_field new_field upgrade st in
      if excluded then diff_new_keys d dialect old_model new_model upgrade rest new_model_changed st1
      else
        (case map_of (fields_map old_model) new_key of
           None \<Rightarrow>
             diff_new_keys d dialect old_model new_model upgrade rest
               (AList.update new_key new_field new_model_changed) st1
         | Some old_field \<Rightarrow>
             (case diff_column d dialect new_model old_field new_field upgrade st1 of
                Inl e \<Rightarrow> Inl e
              | Inr st2 \<Rightarrow>
                  (case diff_column_index d old_model new_model old_field new_field upgrade st2 of
                     Inl e \<Rightarrow> Inl e
                   | Inr st3 \<Rightarrow>
                       diff_new_keys d dialect old_model new_model upgrade rest new_model_changed st3))))"

text \<open>
  The search for a renamed column in the upgrade pass: the inner \<open>for \<dots> else\<close> over
  the items of \<open>new_model_changed\<close>. A candidate has the same description as the old
  field apart from \<open>name\<close> and \<open>db_column\<close>; the user is asked about each candidate in
  turn until one is confirmed (\<open>break\<close>); when none is, the \<open>else\<close> clause removes the
  old field.
\<close>

fun rename_loop ::
  "ddl \<Rightarrow> (string \<Rightarrow> string \<Rightarrow> bool) \<Rightarrow> model \<Rightarrow> model \<Rightarrow> field \<Rightarrow> (string \<times> field) list
   \<Rightarrow> (string \<times> field) list \<Rightarrow> Migrate \<Rightarrow> error + ((string \<times> field) list \<times> Migrate)" where
  "rename_loop d ask_rename_column old_model new_model f [] new_model_changed st =
     and_then (emit (remove_field d old_model f) True (is_fk_m2m f) st)
       (\<lambda>st1. Inr (new_model_changed, st1))"
| "rename_loop d ask_rename_column old_model new_model f ((nk, nf) # rest) new_model_changed st =
     (if pop ''db_column'' (pop ''name'' (describe f)) = pop ''db_column'' (pop ''name'' (describe nf))
      then
        (let st1 = st\<lparr>asked := asked st @ [(model_field_name f, model_field_name nf)]\<rparr> in
         if ask_rename_column (model_field_name f) (model_field_name nf) then
           and_then (emit (rename_field d new_model (model_field_name f) nf) True (is_fk_m2m nf) st1)
             (\<lambda>st2. Inr (pop nk new_model_changed,
                          st2\<lparr>column_reflex :=
                                AList.update (model_field_name nf) (model_field_name f) (column_reflex st2)\<rparr>))
         else rename_loop d ask_rename_column old_model new_model f rest new_model_changed st1)
      else rename_loop d ask_rename_column old_model new_model f rest new_model_changed st)"

text \<open>
  The downgrade branch for an old-only field: a non-empty entry of \<open>_column_reflex\<close>
  under the field's name gives the rename back (the subscript
  \<open>new_model_changed[new_name]\<close> raises when the key is missing); without an entry the
  field is removed.
\<close>

definition rename_back ::
  "ddl \<Rightarrow> model \<Rightarrow> model \<Rightarrow> field \<Rightarrow> (string \<times> field) list \<Rightarrow> Migrate
   \<Rightarrow> error + ((string \<times> field) list \<times> Migrate)" where
  "rename_back d old_model new_model f new_model_changed st =
     (case map_of (column_reflex st) (model_field_name f) of
        Some (c # cs) \<Rightarrow>
          (case map_of new_model_changed (c # cs) of
             None \<Rightarrow> Inl (KeyError (c # cs))
           | Some nf \<Rightarrow>
               and_then (emit (rename_field d new_model (model_field_name f) nf) False (is_fk_m2m nf) st)
                 (\<lambda>st1. Inr (pop (c # cs) new_model_changed,
                              st1\<lparr>column_reflex := pop (model_field_name f) (column_reflex st1)\<rparr>)))
      | _ \<Rightarrow>
          and_then (emit (remove_field d old_model f) False (is_fk_m2m f) st)
            (\<lambda>st1. Inr (new_model_changed, st1)))"

text \<open>The second loop of \<open>diff_model\<close>, over the fields of the old model.\<close>

fun diff_old_keys ::
  "ddl \<Rightarrow> (string \<Rightarrow> string \<Rightarrow> bool) \<Rightarrow> model \<Rightarrow> model \<Rightarrow> bool \<Rightarrow> (string \<times> field) list
   \<Rightarrow> (string \<times> field) list \<Rightarrow> Migrate \<Rightarrow> error + ((string \<times> field) list \<times> Migrate)" where
  "diff_old_keys d ask_rename_column old_model new_model upgrade [] new_model_changed st =
     Inr (new_model_changed, st)"
| "diff_old_keys d ask_rename_column old_model new_model upgrade ((old_key, f) # rest) new_model_changed st =
     (if map_of (fields_map new_model) old_key \<noteq> None
      then diff_old_keys d ask_rename_column old_model new_model upgrade rest new_model_changed st
      else
        (let (excluded, st1) = exclude_field f upgrade st in
         if excluded
         then diff_old_keys d ask_rename_column old_model new_model upgrade rest new_model_changed st1
         else
           (case (if upgrade
                  then rename_loop d ask_rename_column old_model new_model f new_model_changed
                         new_model_changed st1
                  else rename_back d old_model new_model f new_model_changed st1) of
              Inl e \<Rightarrow> Inl e
            | Inr (changed, st2) \<Rightarrow>
                diff_old_keys d ask_rename_column old_model new_model upgrade rest changed st2)))"

text \<open>The third loop: what is left in \<open>new_model_changed\<close> is added.\<close>

fun add_fields :: "ddl \<Rightarrow> model \<Rightarrow> bool \<Rightarrow> (string \<times> field) list \<Rightarrow> Migrate \<Rightarrow> error + Migrate" where
  "add_fields d new_model upgrade [] st = Inr st"
| "add_fields d new_model upgrade ((nk, nf) # rest) st =
     (case emit (add_field d new_model nf) upgrade (is_fk_m2m nf) st of
        Inl e \<Rightarrow> Inl e
      | Inr st1 \<Rightarrow> add_fields d new_model upgrade rest st1)"

text \<open>
  The four loops over \<open>indexes\<close> and \<open>unique_together\<close>: every tuple that the other
  model lacks gives an operator, added with \<open>_add_operator\<close>'s default \<open>fk=False\<close>.
\<close>

fun add_indexes ::
  "ddl \<Rightarrow> model \<Rightarrow> bool \<Rightarrow> bool \<Rightarrow> string list list \<Rightarrow> string list list \<Rightarrow> Migrate
   \<Rightarrow> error + Migrate" where
  "add_indexes d new_model unique upgrade [] old_indexes st = Inr st"
| "add_indexes d new_model unique upgrade (new_index # rest) old_indexes st =
     (if new_index \<notin> set old_indexes then
        (case emit (add_index d new_model new_index unique) upgrade False st of
           Inl e \<Rightarrow> Inl e
         | Inr st1 \<Rightarrow> add_indexes d new_model unique upgrade rest old_indexes st1)
      else add_indexes d new_model unique upgrade rest old_indexes st)"

fun remove_indexes ::
  "ddl \<Rightarrow> model \<Rightarrow> bool \<Rightarrow> bool \<Rightarrow> string list list \<Rightarrow> string list list \<Rightarrow> Migrate
   \<Rightarrow> error + Migrate" where
  "remove_indexes d old_model unique upgrade [] new_indexes st = Inr st"
| "remove_indexes d old_model unique upgrade (old_index # rest) new_indexes st =
     (if old_index \<notin> set new_indexes then
        (case emit (remove_index d old_model old_index unique) upgrade False st of
           Inl e \<Rightarrow> Inl e
         | Inr st1 \<Rightarrow> remove_indexes d old_model unique upgrade rest new_indexes st1)
      else remove_indexes d old_model unique upgrade rest new_indexes st)"

definition diff_model ::
  "ddl \<Rightarrow> string \<Rightarrow> (string \<Rightarrow> string \<Rightarrow> bool) \<Rightarrow> model \<Rightarrow> model \<Rightarrow> bool \<Rightarrow> Migrate
   \<Rightarrow> error + Migrate" where
  "diff_model d dialect ask_rename_column old_model new_model upgrade st =
     and_then (diff_new_keys d dialect old_model new_model upgrade (fields_map new_model) [] st)
       (\<lambda>(changed1, st1).
     and_then (diff_old_keys d ask_rename_column old_model new_model upgrade (fields_map old_model)
                 changed1 st1)
       (\<lambda>(changed2, st2).
     and_then (add_fields d new_model upgrade changed2 st2)
       (\<lambda>st3.
     and_then (add_indexes d new_model False upgrade (indexes new_model) (indexes old_model) st3)
       (\<lambda>st4.
     and_then (remove_indexes d old_model False upgrade (indexes old_model) (indexes new_model) st4)
       (\<lambda>st5.
     and_then (add_indexes d new_model True upgrade (unique_together new_model)
                 (unique_together old_model) st5)
       (\<lambda>st6.
     remove_indexes d old_model True upgrade (unique_together old_model)
       (unique_together new_model) st6))))))"

section \<open>The schema differ\<close>

fun diff_new_models ::
  "ddl \<Rightarrow> string \<Rightarrow> (string \<Rightarrow> string \<Rightarrow> bool) \<Rightarrow> bool \<Rightarrow> (string \<times> model) list
   \<Rightarrow> (string \<times> model) list \<Rightarrow> Migrate \<Rightarrow> error + Migrate" where
  "diff_new_models d dialect ask_rename_column upgrade [] old_models st = Inr st"
| "diff_new_models d dialect ask_rename_column upgrade ((new_model_str, new_model) # rest) old_models st =
     (case (case map_of old_models new_model_str of
              None \<Rightarrow> emit (add_model d new_model) upgrade False st
            | Some old_model \<Rightarrow> diff_model d dialect ask_rename_column old_model new_model upgrade st) of
        Inl e \<Rightarrow> Inl e
      | Inr st1 \<Rightarrow> diff_new_models d dialect ask_rename_column upgrade rest old_models st1)"

fun diff_old_models ::
  "ddl \<Rightarrow> bool \<Rightarrow> (string \<times> model) list \<Rightarrow> (string \<times> model) list \<Rightarrow> Migrate \<Rightarrow> error + Migrate" where
  "diff_old_models d upgrade [] new_models st = Inr st"
| "diff_old_models d upgrade ((old_model_str, old_model) # rest) new_models st =
     (if map_of new_models old_model_str = None then
        (case emit (remove_model d old_model) upgrade False st of
           Inl e \<Rightarrow> Inl e
         | Inr st1 \<Rightarrow> diff_old_models d upgrade rest new_models st1)
      else diff_old_models d upgrade rest new_models st)"

text \<open>
  \<open>diff_models\<close>. The two \<open>pop\<close> calls change the caller's dicts and stay in effect
  when a later step raises, so the result has the two dicts as they are after the call,
  and the class state or the exception. The two arguments are taken to be different
  dict objects, as they are in \<open>migrate\<close>.
\<close>

definition diff_models ::
  "ddl \<Rightarrow> string \<Rightarrow> (string \<Rightarrow> string \<Rightarrow> bool) \<Rightarrow> (string \<times> model) list \<Rightarrow> (string \<times> model) list
   \<Rightarrow> bool \<Rightarrow> Migrate \<Rightarrow> (string \<times> model) list \<times> (string \<times> model) list \<times> (error + Migrate)" where
  "diff_models d dialect ask_rename_column old_models new_models upgrade st =
     (let old_models1 = pop ''Aerich'' old_models;
          new_models1 = pop ''Aerich'' new_models
      in (old_models1, new_models1,
          and_then (diff_new_models d dialect ask_rename_column upgrade new_models1 old_models1 st)
            (\<lambda>st1. diff_old_models d upgrade old_models1 new_models1 st1)))"

section \<open>The operator sequencer\<close>

text \<open>Python's \<open>sub in s\<close> on strings.\<close>

fun starts_with :: "string \<Rightarrow> string \<Rightarrow> bool" where
  "starts_with [] s = True"
| "starts_with (c # cs) [] = False"
| "starts_with (c # cs) (d # ds) = (c = d \<and> starts_with cs ds)"

fun str_in :: "string \<Rightarrow> string \<Rightarrow> bool" where
  "str_in sub [] = (sub = [])"
| "str_in sub (d # ds) = (starts_with sub (d # ds) \<or> str_in sub ds)"

definition creates :: "string \<Rightarrow> bool" where
  "creates operator = (str_in ''ADD'' operator \<or> str_in ''CREATE'' operator)"

text \<open>
  One loop of \<open>_merge_operators\<close>: the referential operators are taken in order; one
  with a creation verb is appended to the ordinary list, any other is inserted at its
  front.
\<close>

fun merge_loop :: "string list \<Rightarrow> string list \<Rightarrow> string list" where
  "merge_loop [] operators = operators"
| "merge_loop (operator # rest) operators =
     (if creates operator then merge_loop rest (operators @ [operator])
      else merge_loop rest (operator # operators))"

definition merge_operators :: "Migrate \<Rightarrow> Migrate" where
  "merge_operators st =
     (let st1 = st\<lparr>upgrade_operators :=
                     merge_loop (upgrade_fk_m2m_index_operators st) (upgrade_operators st)\<rparr>
      in st1\<lparr>downgrade_operators :=
                merge_loop (downgrade_fk_m2m_index_operators st1) (downgrade_operators st1)\<rparr>)"

section \<open>The version manager\<close>

text \<open>\<open>str(n)\<close> for a Python int: the decimal digits, after a minus sign when negative.\<close>

definition digit_char :: "nat \<Rightarrow> char" where
  "digit_char d = ''0123456789'' ! d"

function nat_str :: "nat \<Rightarrow> string" where
  "nat_str n = (if n < 10 then [digit_char n] else nat_str (n div 10) @ [digit_char (n mod 10)])"
  by pat_completeness auto
termination
  by (relation "measure id") auto

declare nat_str.simps [simp del]

definition str_int :: "int \<Rightarrow> string" where
  "str_int i = (if i < 0 then CHR ''-'' # nat_str (nat (- i)) else nat_str (nat i))"

text \<open>
  \<open>int(s)\<close> for a string of one-byte characters: surrounding whitespace (tab, line
  feed, vertical tab, form feed, carriage return, space, and the two one-byte Unicode
  spaces 0x85 and 0xA0) is stripped, one sign is allowed, and at least one decimal digit must follow; anything else raises
  \<open>ValueError\<close>. (Python also accepts single underscores between digits; the argument
  here is the part of a version before its first underscore and has none.)
\<close>

definition is_digit :: "char \<Rightarrow> bool" where
  "is_digit c = (48 \<le> (of_char c :: nat) \<and> (of_char c :: nat) \<le> 57)"

definition is_space :: "char \<Rightarrow> bool" where
  "is_space c = ((of_char c :: nat) \<in> {9, 10, 11, 12, 13, 32, 133, 160})"

definition strip :: "string \<Rightarrow> string" where
  "strip s = rev (dropWhile is_space (rev (dropWhile is_space s)))"

fun digits_val :: "string \<Rightarrow> nat \<Rightarrow> nat" where
  "digits_val [] acc = acc"
| "digits_val (c # cs) acc = digits_val cs (10 * acc + (of_char c - 48))"

definition unsigned_int :: "string \<Rightarrow> string \<Rightarrow> error + nat" where
  "unsigned_int s ds =
     (if ds \<noteq> [] \<and> list_all is_digit ds then Inr (digits_val ds 0) else Inl (ValueError s))"

definition py_int :: "string \<Rightarrow> error + int" where
  "py_int s =
     (case strip s of
        c # cs \<Rightarrow>
          (if c = CHR ''-'' then and_then (unsigned_int s cs) (\<lambda>n. Inr (- int n))
           else if c = CHR ''+'' then and_then (unsigned_int s cs) (\<lambda>n. Inr (int n))
           else and_then (unsigned_int s (c # cs)) (\<lambda>n. Inr (int n)))
      | [] \<Rightarrow> Inl (ValueError s))"

text \<open>
  \<open>_get_last_version_num\<close>. The row that \<open>get_last_version\<close> reads from the
  migration-history table is a parameter: \<open>None\<close> when the app has no row, else the
  \<open>version\<close> string of its latest row. \<open>version.split("_", 1)[0]\<close> is the text before
  the first underscore.
\<close>

definition get_last_version_num :: "string option \<Rightarrow> error + int option" where
  "get_last_version_num last_version =
     (case last_version of
        None \<Rightarrow> Inr None
      | Some version \<Rightarrow>
          and_then (py_int (takeWhile (\<lambda>c. c \<noteq> CHR ''_'') version)) (\<lambda>n. Inr (Some n)))"

text \<open>
  \<open>generate_version\<close>; \<open>now\<close> is the formatted timestamp. An absent \<open>name\<close>
  is formatted as \<open>None\<close> by the f-string. \<open>MAX_VERSION_LENGTH\<close> is 255.
\<close>

definition format_name :: "string option \<Rightarrow> string" where
  "format_name name = (case name of None \<Rightarrow> ''None'' | Some n \<Rightarrow> n)"

definition generate_version :: "string \<Rightarrow> string option \<Rightarrow> string option \<Rightarrow> error + string" where
  "generate_version now last_version name =
     and_then (get_last_version_num last_version)
       (\<lambda>last_version_num.
          case last_version_num of
            None \<Rightarrow> Inr (''0_'' @ now @ ''_init.json'')
          | Some n \<Rightarrow>
              (let version = str_int (n + 1) @ ''_'' @ now @ ''_'' @ format_name name @ ''.json''
               in if length version > 255
                  then Inl (ValueError ''Version name exceeds maximum length (255)'')
                  else Inr version))"

section \<open>One run of \<open>migrate\<close>\<close>

text \<open>
  \<open>_generate_diff_sql\<close> asks for the version and writes the two final lists to a file of
  that name; the model returns the name and the two lists written.
\<close>

definition generate_diff_sql ::
  "string \<Rightarrow> string option \<Rightarrow> string option \<Rightarrow> Migrate \<Rightarrow> error + (string \<times> string list \<times> string list)" where
  "generate_diff_sql now last_version name st =
     and_then (generate_version now last_version name)
       (\<lambda>version. Inr (version, upgrade_operators st, downgrade_operators st))"

text \<open>
  \<open>migrate\<close>: the two passes, the sequencer, and the file when the upgrade list is not
  empty. The two model sets are the entries of \<open>Tortoise.apps\<close> for the snapshot
  (\<open>diff_models\<close>) and for the app; the second pass gets the dicts as the first one left
  them. The result has the class state after the call, the version returned (empty when
  nothing was written) and the content of the file written, if any.
\<close>

definition migrate ::
  "ddl \<Rightarrow> string \<Rightarrow> (string \<Rightarrow> string \<Rightarrow> bool) \<Rightarrow> string \<Rightarrow> string option \<Rightarrow> string option
   \<Rightarrow> (string \<times> model) list \<Rightarrow> (string \<times> model) list \<Rightarrow> Migrate
   \<Rightarrow> error + (Migrate \<times> string \<times> (string list \<times> string list) option)" where
  "migrate d dialect ask_rename_column now last_version name diff_models_app app_models st =
     (case diff_models d dialect ask_rename_column diff_models_app app_models True st of
        (diff_models1, app_models1, r1) \<Rightarrow>
          and_then r1 (\<lambda>st1.
            case diff_models d dialect ask_rename_column app_models1 diff_models1 False st1 of
              (app_models2, diff_models2, r2) \<Rightarrow>
                and_then r2 (\<lambda>st2.
                  let st3 = merge_operators st2 in
                  if upgrade_operators st3 = [] then Inr (st3, [], None)
                  else and_then (generate_diff_sql now last_version name st3)
                         (\<lambda>(version, upgrade, downgrade).
                            Inr (st3, version, Some (upgrade, downgrade))))))"

section \<open>Predicates and sample data of the statements\<close>

text \<open>
  Two states that differ at most in the join-table lists \<open>_upgrade_m2m\<close> and
  \<open>_downgrade_m2m\<close>: the operator lists, the rename map and the prompts are the same.
\<close>

definition m2m_only :: "Migrate \<Rightarrow> Migrate \<Rightarrow> bool" where
  "m2m_only st st' =
     (upgrade_operators st' = upgrade_operators st
      \<and> downgrade_operators st' = downgrade_operators st
      \<and> upgrade_fk_m2m_index_operators st' = upgrade_fk_m2m_index_operators st
      \<and> downgrade_fk_m2m_index_operators st' = downgrade_fk_m2m_index_operators st
      \<and> column_reflex st' = column_reflex st
      \<and> asked st' = asked st)"

text \<open>
  The list that \<open>_add_operator\<close> appends to for a direction and an \<open>fk\<close> flag, and a
  state that still has every operator and every join-table name of an earlier one.
\<close>

definition operators_of :: "bool \<Rightarrow> bool \<Rightarrow> Migrate \<Rightarrow> string list" where
  "operators_of upgrade fk st =
     (if upgrade then (if fk then upgrade_fk_m2m_index_operators st else upgrade_operators st)
      else (if fk then downgrade_fk_m2m_index_operators st else downgrade_operators st))"

definition keeps :: "Migrate \<Rightarrow> Migrate \<Rightarrow> bool" where
  "keeps st st' =
     (set (upgrade_operators st) \<subseteq> set (upgrade_operators st')
      \<and> set (downgrade_operators st) \<subseteq> set (downgrade_operators st')
      \<and> set (upgrade_fk_m2m_index_operators st) \<subseteq> set (upgrade_fk_m2m_index_operators st')
      \<and> set (downgrade_fk_m2m_index_operators st) \<subseteq> set (downgrade_fk_m2m_index_operators st')
      \<and> set (upgrade_m2m st) \<subseteq> set (upgrade_m2m st')
      \<and> set (downgrade_m2m st) \<subseteq> set (downgrade_m2m st'))"

text \<open>
  Identical models: the same fields under the same keys, the same indexes and the same
  unique-together tuples, in any order. Identical model sets: the same table names, with
  identical models under each name. The keys of a dict are distinct.
\<close>

definition identical_model :: "model \<Rightarrow> model \<Rightarrow> bool" where
  "identical_model old_model new_model =
     (distinct (map fst (fields_map old_model)) \<and> distinct (map fst (fields_map new_model))
      \<and> set (fields_map old_model) = set (fields_map new_model)
      \<and> set (indexes old_model) = set (indexes new_model)
      \<and> set (unique_together old_model) = set (unique_together new_model))"

definition identical_models :: "(string \<times> model) list \<Rightarrow> (string \<times> model) list \<Rightarrow> bool" where
  "identical_models old_models new_models =
     (distinct (map fst old_models) \<and> distinct (map fst new_models)
      \<and> set (map fst old_models) = set (map fst new_models)
      \<and> (\<forall>(k, old_model) \<in> set old_models. \<forall>(k', new_model) \<in> set new_models.
            k = k' \<longrightarrow> identical_model old_model new_model))"

text \<open>
  A generator for running the differ on concrete inputs. The templates of \<open>BaseDDL\<close>
  are not among the sources, so these texts are only an example of what a generator
  returns; the general theorems hold for every generator.
\<close>

fun commas :: "string list \<Rightarrow> string" where
  "commas [] = []"
| "commas [x] = x"
| "commas (x # y # zs) = x @ '', '' @ commas (y # zs)"

definition sample_ddl :: ddl where
  "sample_ddl c = Inr
     (case c of
        ddl_create_table m \<Rightarrow> ''CREATE TABLE '' @ table m
      | ddl_drop_table m \<Rightarrow> ''DROP TABLE '' @ table m
      | ddl_add_column m f \<Rightarrow> ''ALTER TABLE '' @ table m @ '' ADD '' @ model_field_name f
      | ddl_drop_column m column_name \<Rightarrow> ''ALTER TABLE '' @ table m @ '' DROP COLUMN '' @ column_name
      | ddl_modify_column m f \<Rightarrow>
          ''ALTER TABLE '' @ table m @ '' MODIFY COLUMN '' @ model_field_name f
      | ddl_rename_column m old_column_name f \<Rightarrow>
          ''ALTER TABLE '' @ table m @ '' RENAME COLUMN '' @ old_column_name
            @ '' TO '' @ model_field_name f
      | ddl_add_index m column_names unique \<Rightarrow>
          ''ALTER TABLE '' @ table m @ '' ADD '' @ (if unique then ''UNIQUE '' else [])
            @ ''INDEX ('' @ commas column_names @ '')''
      | ddl_drop_index m column_names unique \<Rightarrow>
          ''ALTER TABLE '' @ table m @ '' DROP '' @ (if unique then ''UNIQUE '' else [])
            @ ''INDEX ('' @ commas column_names @ '')''
      | ddl_add_fk m f \<Rightarrow> ''ALTER TABLE '' @ table m @ '' ADD FOREIGN KEY '' @ model_field_name f
      | ddl_drop_fk m f \<Rightarrow> ''ALTER TABLE '' @ table m @ '' DROP FOREIGN KEY '' @ model_field_name f
      | ddl_create_m2m_table m f \<Rightarrow> ''CREATE TABLE '' @ through f
      | ddl_drop_m2m f \<Rightarrow> ''DROP TABLE '' @ through f
      | ddl_alter_column_default m f \<Rightarrow>
          ''ALTER TABLE '' @ table m @ '' ALTER COLUMN '' @ model_field_name f @ '' DEFAULT''
      | ddl_alter_column_null m f \<Rightarrow>
          ''ALTER TABLE '' @ table m @ '' ALTER COLUMN '' @ model_field_name f @ '' NULL''
      | ddl_set_comment m f \<Rightarrow>
          ''COMMENT ON COLUMN '' @ table m @ ''.'' @ model_field_name f)"

text \<open>A rename oracle that confirms every candidate.\<close>

definition always_yes :: "string \<Rightarrow> string \<Rightarrow> bool" where
  "always_yes old_name new_name = True"

text \<open>Sample fields and models: a plain column of a given class, and small tables.\<close>

definition plain_field :: "string \<Rightarrow> string \<Rightarrow> field" where
  "plain_field name cls =
     \<lparr>model_field_name = name, source_field = None, field_type = cls, f_null = False,
      f_unique = False, f_index = False, f_default = None, description = None,
      role = Plain, through = []\<rparr>"

definition table_of :: "string \<Rightarrow> (string \<times> field) list \<Rightarrow> model" where
  "table_of name fs =
     \<lparr>table = name, fields_map = fs, indexes = [], unique_together = [], fk_fields = []\<rparr>"

definition user_model :: model where
  "user_model =
     table_of ''user'' [(''id'', plain_field ''id'' ''IntField''),
                        (''name'', plain_field ''name'' ''CharField'')]"

definition aerich_model :: model where
  "aerich_model =
     table_of ''aerich'' [(''version'', plain_field ''version'' ''CharField''),
                          (''app'', plain_field ''app'' ''CharField'')]"

text \<open>Two tables \<open>a\<close> and \<open>b\<close> in which the column \<open>x\<close> becomes \<open>y\<close>.\<close>

definition a_old :: model where "a_old = table_of ''a'' [(''x'', plain_field ''x'' ''CharField'')]"
definition a_new :: model where "a_new = table_of ''a'' [(''y'', plain_field ''y'' ''CharField'')]"
definition b_old :: model where "b_old = table_of ''b'' [(''x'', plain_field ''x'' ''CharField'')]"
definition b_new :: model where "b_new = table_of ''b'' [(''y'', plain_field ''y'' ''CharField'')]"

text \<open>The column \<open>name\<close> with an index, and the same column with a unique constraint.\<close>

definition indexed_name :: field where
  "indexed_name = (plain_field ''name'' ''CharField'')\<lparr>f_index := True\<rparr>"

definition unique_name :: field where
  "unique_name = (plain_field ''name'' ''CharField'')\<lparr>f_unique := True\<rparr>"

section \<open>Properties of the SQLite generator\<close>

text \<open>
  C7: every \<open>drop_column\<close>, \<open>modify_column\<close> and \<open>rename_column\<close> request to the
  SQLite generator raises the unsupported-capability error; the result is an error, never
  an SQL string, whatever the base class and the arguments are.
\<close>

theorem sqlite_rejects_column_changes:
  "SqliteDDL base (ddl_drop_column m column_name) =
     Inl (NotSupportError ''Drop column is not support in SQLite.'')
   \<and> SqliteDDL base (ddl_modify_column m field_object) =
     Inl (NotSupportError ''Modify column is not support in SQLite.'')
   \<and> SqliteDDL base (ddl_rename_column m old_column_name field_object) =
     Inl (NotSupportError ''Rename column is not support in SQLite.'')"
  by (simp add: SqliteDDL_def)

section \<open>Properties of the operator sequencer\<close>

lemma merge_loop_eq:
  "merge_loop refs operators =
     rev (filter (\<lambda>r. \<not> creates r) refs) @ operators @ filter creates refs"
  by (induction refs arbitrary: operators) simp_all

lemma starts_with_iff: "starts_with sub s \<longleftrightarrow> (\<exists>q. s = sub @ q)"
  by (induction sub s rule: starts_with.induct) auto

lemma str_in_iff: "str_in sub s \<longleftrightarrow> (\<exists>p q. s = p @ sub @ q)"
proof (induction s)
  case Nil
  then show ?case by auto
next
  case (Cons c s)
  show ?case
  proof
    assume "str_in sub (c # s)"
    then consider "starts_with sub (c # s)" | "str_in sub s" by auto
    then show "\<exists>p q. c # s = p @ sub @ q"
    proof cases
      case 1
      then obtain q where "c # s = sub @ q" by (auto simp add: starts_with_iff)
      then have "c # s = [] @ sub @ q" by simp
      then show ?thesis by blast
    next
      case 2
      with Cons.IH obtain p q where "s = p @ sub @ q" by blast
      then have "c # s = (c # p) @ sub @ q" by simp
      then show ?thesis by blast
    qed
  next
    assume "\<exists>p q. c # s = p @ sub @ q"
    then obtain p q where e: "c # s = p @ sub @ q" by blast
    show "str_in sub (c # s)"
    proof (cases p)
      case Nil
      with e have "starts_with sub (c # s)" by (auto simp add: starts_with_iff)
      then show ?thesis by simp
    next
      case (Cons c' p')
      with e have "s = p' @ sub @ q" by simp
      with Cons.IH have "str_in sub s" by blast
      then show ?thesis by simp
    qed
  qed
qed

lemma creates_iff:
  "creates operator \<longleftrightarrow>
     (\<exists>p q. operator = p @ ''ADD'' @ q) \<or> (\<exists>p q. operator = p @ ''CREATE'' @ q)"
  by (simp add: creates_def str_in_iff)

text \<open>
  C6: after the sequencer has run, each direction's final list is: the referential
  operators whose text contains neither \<open>ADD\<close> nor \<open>CREATE\<close> (latest first), then the
  ordinary operators in their discovery order, then the referential operators whose text
  contains \<open>ADD\<close> or \<open>CREATE\<close>, in their order. So every creating referential operator
  comes after all ordinary ones and every other referential operator before them. The
  last conjunct is one run on both directions, with two ordinary and four referential
  operators each.
\<close>

theorem merge_operators_order:
  "upgrade_operators (merge_operators st) =
     rev (filter (\<lambda>r. \<not> ((\<exists>p q. r = p @ ''ADD'' @ q) \<or> (\<exists>p q. r = p @ ''CREATE'' @ q)))
            (upgrade_fk_m2m_index_operators st))
     @ upgrade_operators st
     @ filter (\<lambda>r. (\<exists>p q. r = p @ ''ADD'' @ q) \<or> (\<exists>p q. r = p @ ''CREATE'' @ q))
         (upgrade_fk_m2m_index_operators st)
   \<and> downgrade_operators (merge_operators st) =
     rev (filter (\<lambda>r. \<not> ((\<exists>p q. r = p @ ''ADD'' @ q) \<or> (\<exists>p q. r = p @ ''CREATE'' @ q)))
            (downgrade_fk_m2m_index_operators st))
     @ downgrade_operators st
     @ filter (\<lambda>r. (\<exists>p q. r = p @ ''ADD'' @ q) \<or> (\<exists>p q. r = p @ ''CREATE'' @ q))
         (downgrade_fk_m2m_index_operators st)
   \<and> merge_operators
       (Migrate_class
          \<lparr>upgrade_operators := [''ALTER TABLE a ADD c'', ''ALTER TABLE a DROP COLUMN e''],
           downgrade_operators := [''ALTER TABLE a DROP COLUMN c'', ''ALTER TABLE a ADD e''],
           upgrade_fk_m2m_index_operators :=
             [''ALTER TABLE a ADD FOREIGN KEY u'', ''ALTER TABLE a DROP FOREIGN KEY v'',
              ''CREATE TABLE a_b'', ''DROP TABLE a_c''],
           downgrade_fk_m2m_index_operators :=
             [''ALTER TABLE a DROP FOREIGN KEY u'', ''ALTER TABLE a ADD FOREIGN KEY v'',
              ''DROP TABLE a_b'', ''CREATE TABLE a_c'']\<rparr>)
     = Migrate_class
          \<lparr>upgrade_operators :=
             [''DROP TABLE a_c'', ''ALTER TABLE a DROP FOREIGN KEY v'',
              ''ALTER TABLE a ADD c'', ''ALTER TABLE a DROP COLUMN e'',
              ''ALTER TABLE a ADD FOREIGN KEY u'', ''CREATE TABLE a_b''],
           downgrade_operators :=
             [''DROP TABLE a_b'', ''ALTER TABLE a DROP FOREIGN KEY u'',
              ''ALTER TABLE a DROP COLUMN c'', ''ALTER TABLE a ADD e'',
              ''ALTER TABLE a ADD FOREIGN KEY v'', ''CREATE TABLE a_c''],
           upgrade_fk_m2m_index_operators :=
             [''ALTER TABLE a ADD FOREIGN KEY u'', ''ALTER TABLE a DROP FOREIGN KEY v'',
              ''CREATE TABLE a_b'', ''DROP TABLE a_c''],
           downgrade_fk_m2m_index_operators :=
             [''ALTER TABLE a DROP FOREIGN KEY u'', ''ALTER TABLE a ADD FOREIGN KEY v'',
              ''DROP TABLE a_b'', ''CREATE TABLE a_c'']\<rparr>"
proof -
  have c: "creates = (\<lambda>r. (\<exists>p q. r = p @ ''ADD'' @ q) \<or> (\<exists>p q. r = p @ ''CREATE'' @ q))"
    by (rule ext) (rule creates_iff)
  have general: "upgrade_operators (merge_operators st) =
       rev (filter (\<lambda>r. \<not> creates r) (upgrade_fk_m2m_index_operators st))
       @ upgrade_operators st @ filter creates (upgrade_fk_m2m_index_operators st)"
    "downgrade_operators (merge_operators st) =
       rev (filter (\<lambda>r. \<not> creates r) (downgrade_fk_m2m_index_operators st))
       @ downgrade_operators st @ filter creates (downgrade_fk_m2m_index_operators st)"
    by (simp_all add: merge_operators_def Let_def merge_loop_eq)
  have run: "merge_operators
       (Migrate_class
          \<lparr>upgrade_operators := [''ALTER TABLE a ADD c'', ''ALTER TABLE a DROP COLUMN e''],
           downgrade_operators := [''ALTER TABLE a DROP COLUMN c'', ''ALTER TABLE a ADD e''],
           upgrade_fk_m2m_index_operators :=
             [''ALTER TABLE a ADD FOREIGN KEY u'', ''ALTER TABLE a DROP FOREIGN KEY v'',
              ''CREATE TABLE a_b'', ''DROP TABLE a_c''],
           downgrade_fk_m2m_index_operators :=
             [''ALTER TABLE a DROP FOREIGN KEY u'', ''ALTER TABLE a ADD FOREIGN KEY v'',
              ''DROP TABLE a_b'', ''CREATE TABLE a_c'']\<rparr>)
     = Migrate_class
          \<lparr>upgrade_operators :=
             [''DROP TABLE a_c'', ''ALTER TABLE a DROP FOREIGN KEY v'',
              ''ALTER TABLE a ADD c'', ''ALTER TABLE a DROP COLUMN e'',
              ''ALTER TABLE a ADD FOREIGN KEY u'', ''CREATE TABLE a_b''],
           downgrade_operators :=
             [''DROP TABLE a_b'', ''ALTER TABLE a DROP FOREIGN KEY u'',
              ''ALTER TABLE a DROP COLUMN c'', ''ALTER TABLE a ADD e'',
              ''ALTER TABLE a ADD FOREIGN KEY v'', ''CREATE TABLE a_c''],
           upgrade_fk_m2m_index_operators :=
             [''ALTER TABLE a ADD FOREIGN KEY u'', ''ALTER TABLE a DROP FOREIGN KEY v'',
              ''CREATE TABLE a_b'', ''DROP TABLE a_c''],
           downgrade_fk_m2m_index_operators :=
             [''ALTER TABLE a DROP FOREIGN KEY u'', ''ALTER TABLE a ADD FOREIGN KEY v'',
              ''DROP TABLE a_b'', ''CREATE TABLE a_c'']\<rparr>"
    by (simp add: merge_operators_def Let_def creates_def Migrate_class_def)
  show ?thesis using general run unfolding c by blast
qed

section \<open>Identical model sets\<close>

lemma and_then_simps [simp]:
  "and_then (Inl e) f = Inl e" "and_then (Inr x) f = f x"
  by (simp_all add: and_then_def)

lemma m2m_only_refl [simp]: "m2m_only st st"
  by (simp add: m2m_only_def)

lemma m2m_only_trans: "m2m_only a b \<Longrightarrow> m2m_only b c \<Longrightarrow> m2m_only a c"
  by (simp add: m2m_only_def)

lemma exclude_field_m2m_only: "m2m_only st (snd (exclude_field f upgrade st))"
  by (simp add: exclude_field_def m2m_only_def)

lemma diff_column_same [simp]: "diff_column d dialect new_model f f upgrade st = Inr st"
  by (simp add: diff_column_def)

lemma diff_column_index_same [simp]: "diff_column_index d old_model new_model f f upgrade st = Inr st"
  by (auto simp add: diff_column_index_def)

lemma diff_new_keys_same:
  assumes "\<forall>(k, f) \<in> set fs. map_of (fields_map old_model) k = Some f"
  shows "\<exists>st'. diff_new_keys d dialect old_model new_model upgrade fs changed st = Inr (changed, st')
               \<and> m2m_only st st'"
  using assms
proof (induction fs arbitrary: st)
  case Nil
  then show ?case by simp
next
  case (Cons kf fs)
  obtain k f where kf: "kf = (k, f)" by (cases kf)
  obtain ex st1 where ex: "exclude_field f upgrade st = (ex, st1)" by (cases "exclude_field f upgrade st")
  have m1: "m2m_only st st1" using exclude_field_m2m_only [of st f upgrade] ex by simp
  from Cons.prems kf have old: "map_of (fields_map old_model) k = Some f" by simp
  from Cons.prems have rest: "\<forall>(k, f) \<in> set fs. map_of (fields_map old_model) k = Some f" by simp
  from Cons.IH [OF rest, of st1] obtain st' where
    r: "diff_new_keys d dialect old_model new_model upgrade fs changed st1 = Inr (changed, st')"
    and m2: "m2m_only st1 st'" by blast
  have "diff_new_keys d dialect old_model new_model upgrade (kf # fs) changed st = Inr (changed, st')"
    by (simp add: kf ex old r)
  with m1 m2 show ?case by (blast intro: m2m_only_trans)
qed

lemma diff_old_keys_same:
  assumes "\<forall>(k, f) \<in> set fs. map_of (fields_map new_model) k \<noteq> None"
  shows "diff_old_keys d ask old_model new_model upgrade fs changed st = Inr (changed, st)"
  using assms by (induction fs) auto

lemma add_indexes_same:
  "set xs \<subseteq> set ys \<Longrightarrow> add_indexes d new_model unique upgrade xs ys st = Inr st"
  by (induction xs) auto

lemma remove_indexes_same:
  "set xs \<subseteq> set ys \<Longrightarrow> remove_indexes d old_model unique upgrade xs ys st = Inr st"
  by (induction xs) auto

lemma diff_model_same:
  assumes "identical_model old_model new_model"
  shows "\<exists>st'. diff_model d dialect ask old_model new_model upgrade st = Inr st' \<and> m2m_only st st'"
proof -
  from assms have dn: "distinct (map fst (fields_map new_model))"
    and dold: "distinct (map fst (fields_map old_model))"
    and fs: "set (fields_map old_model) = set (fields_map new_model)"
    and ix: "set (indexes old_model) = set (indexes new_model)"
    and ut: "set (unique_together old_model) = set (unique_together new_model)"
    by (simp_all add: identical_model_def)
  have a: "\<forall>(k, f) \<in> set (fields_map new_model). map_of (fields_map old_model) k = Some f"
    using dold fs by auto
  have b: "\<forall>(k, f) \<in> set (fields_map old_model). map_of (fields_map new_model) k \<noteq> None"
    using dn fs by (auto simp: weak_map_of_SomeI)
  from diff_new_keys_same [OF a, of d dialect new_model upgrade "[]" st] obtain st' where
    r: "diff_new_keys d dialect old_model new_model upgrade (fields_map new_model) [] st = Inr ([], st')"
    and m: "m2m_only st st'" by blast
  have "diff_model d dialect ask old_model new_model upgrade st = Inr st'"
    by (simp add: diff_model_def r diff_old_keys_same [OF b] add_indexes_same remove_indexes_same ix ut)
  with m show ?thesis by blast
qed


lemma diff_new_models_same:
  assumes "\<forall>(k, new_model) \<in> set items.
             \<exists>old_model. map_of old_models k = Some old_model \<and> identical_model old_model new_model"
  shows "\<exists>st'. diff_new_models d dialect ask upgrade items old_models st = Inr st' \<and> m2m_only st st'"
  using assms
proof (induction items arbitrary: st)
  case Nil
  then show ?case by simp
next
  case (Cons km items)
  obtain k new_model where km: "km = (k, new_model)" by (cases km)
  from Cons.prems km obtain old_model where
    old: "map_of old_models k = Some old_model" and same: "identical_model old_model new_model"
    by auto
  from diff_model_same [OF same, of d dialect ask upgrade st] obtain st1 where
    r1: "diff_model d dialect ask old_model new_model upgrade st = Inr st1" and m1: "m2m_only st st1"
    by blast
  from Cons.prems have rest: "\<forall>(k, new_model) \<in> set items.
      \<exists>old_model. map_of old_models k = Some old_model \<and> identical_model old_model new_model"
    by simp
  from Cons.IH [OF rest, of st1] obtain st' where
    r2: "diff_new_models d dialect ask upgrade items old_models st1 = Inr st'" and m2: "m2m_only st1 st'"
    by blast
  have "diff_new_models d dialect ask upgrade (km # items) old_models st = Inr st'"
    by (simp add: km old r1 r2)
  with m1 m2 show ?case by (blast intro: m2m_only_trans)
qed

lemma diff_old_models_same:
  assumes "\<forall>(k, old_model) \<in> set items. map_of new_models k \<noteq> None"
  shows "diff_old_models d upgrade items new_models st = Inr st"
  using assms by (induction items) auto

lemma keys_pop: "fst ` set (pop k d) = fst ` set d - {k}"
  unfolding pop_def by force

lemma set_pop_subset: "set (pop k d) \<subseteq> set d"
  unfolding pop_def by simp

lemma distinct_pop: "distinct (map fst d) \<Longrightarrow> distinct (map fst (pop k d))"
  unfolding pop_def by (rule distinct_map_filter)

lemma identical_models_pop:
  assumes "identical_models old_models new_models"
  shows "identical_models (pop k old_models) (pop k new_models)"
proof -
  from assms have d1: "distinct (map fst old_models)" and d2: "distinct (map fst new_models)"
    and keys: "fst ` set old_models = fst ` set new_models"
    and same: "\<And>k om k' nm. (k, om) \<in> set old_models \<Longrightarrow> (k', nm) \<in> set new_models
                 \<Longrightarrow> k = k' \<Longrightarrow> identical_model om nm"
    unfolding identical_models_def by auto
  have "fst ` set (pop k old_models) = fst ` set (pop k new_models)"
    by (simp add: keys_pop keys)
  moreover have "\<forall>(k1, om) \<in> set (pop k old_models). \<forall>(k2, nm) \<in> set (pop k new_models).
                   k1 = k2 \<longrightarrow> identical_model om nm"
    using same set_pop_subset [of k old_models] set_pop_subset [of k new_models] by blast
  ultimately show ?thesis
    unfolding identical_models_def using distinct_pop [OF d1] distinct_pop [OF d2] by simp
qed

lemma identical_models_lookup:
  assumes "identical_models old_models new_models" and "(k, new_model) \<in> set new_models"
  shows "\<exists>old_model. map_of old_models k = Some old_model \<and> identical_model old_model new_model"
proof -
  from assms(1) have d1: "distinct (map fst old_models)"
    and keys: "fst ` set old_models = fst ` set new_models"
    and same: "\<And>k om k' nm. (k, om) \<in> set old_models \<Longrightarrow> (k', nm) \<in> set new_models
                 \<Longrightarrow> k = k' \<Longrightarrow> identical_model om nm"
    unfolding identical_models_def by auto
  from assms(2) have "k \<in> fst ` set new_models" by force
  with keys have "k \<in> fst ` set old_models" by simp
  then obtain old_model where m: "(k, old_model) \<in> set old_models" by auto
  from d1 m have "map_of old_models k = Some old_model" by simp
  moreover from same [OF m assms(2)] have "identical_model old_model new_model" by simp
  ultimately show ?thesis by blast
qed

lemma identical_models_present:
  assumes "identical_models old_models new_models" and "(k, old_model) \<in> set old_models"
  shows "map_of new_models k \<noteq> None"
proof -
  from assms(1) have keys: "fst ` set old_models = fst ` set new_models"
    unfolding identical_models_def by auto
  from assms(2) have "k \<in> fst ` set old_models" by force
  with keys have "k \<in> fst ` set new_models" by simp
  then show ?thesis by (simp add: map_of_eq_None_iff)
qed

text \<open>
  C1: for two identical model sets the diff, in either direction (\<open>upgrade\<close> is any of
  the two), raises nothing and leaves the four operator lists as they were: the upgrade
  and downgrade lists and both referential lists. Started with empty lists, all four are
  empty after the run.
\<close>

theorem diff_identical_models:
  assumes "identical_models old_models new_models"
  shows "\<exists>st'. diff_models d dialect ask old_models new_models upgrade st
                 = (pop ''Aerich'' old_models, pop ''Aerich'' new_models, Inr st')
               \<and> upgrade_operators st' = upgrade_operators st
               \<and> downgrade_operators st' = downgrade_operators st
               \<and> upgrade_fk_m2m_index_operators st' = upgrade_fk_m2m_index_operators st
               \<and> downgrade_fk_m2m_index_operators st' = downgrade_fk_m2m_index_operators st"
proof -
  let ?old = "pop ''Aerich'' old_models" and ?new = "pop ''Aerich'' new_models"
  have same: "identical_models ?old ?new" using assms by (rule identical_models_pop)
  have a: "\<forall>(k, new_model) \<in> set ?new.
             \<exists>old_model. map_of ?old k = Some old_model \<and> identical_model old_model new_model"
    using identical_models_lookup [OF same] by blast
  have b: "\<forall>(k, old_model) \<in> set ?old. map_of ?new k \<noteq> None"
    using identical_models_present [OF same] by blast
  from diff_new_models_same [OF a, of d dialect ask upgrade st] obtain st' where
    r: "diff_new_models d dialect ask upgrade ?new ?old st = Inr st'" and m: "m2m_only st st'"
    by blast
  have "diff_models d dialect ask old_models new_models upgrade st = (?old, ?new, Inr st')"
    by (simp add: diff_models_def Let_def r diff_old_models_same [OF b])
  moreover from m have "upgrade_operators st' = upgrade_operators st"
    "downgrade_operators st' = downgrade_operators st"
    "upgrade_fk_m2m_index_operators st' = upgrade_fk_m2m_index_operators st"
    "downgrade_fk_m2m_index_operators st' = downgrade_fk_m2m_index_operators st"
    by (simp_all add: m2m_only_def)
  ultimately show ?thesis by blast
qed

theorem diff_identical_models_witness:
  "identical_models [(''Aerich'', aerich_model), (''User'', user_model)]
     [(''User'', user_model), (''Aerich'', aerich_model)]
   \<and> (\<exists>st'. diff_models sample_ddl ''mysql'' always_yes
               [(''Aerich'', aerich_model), (''User'', user_model)]
               [(''User'', user_model), (''Aerich'', aerich_model)] False Migrate_class
             = ([(''User'', user_model)], [(''User'', user_model)], Inr st')
           \<and> upgrade_operators st' = [] \<and> downgrade_operators st' = []
           \<and> upgrade_fk_m2m_index_operators st' = []
           \<and> downgrade_fk_m2m_index_operators st' = [])"
proof -
  have h: "identical_models [(''Aerich'', aerich_model), (''User'', user_model)]
             [(''User'', user_model), (''Aerich'', aerich_model)]"
    by (auto simp add: identical_models_def identical_model_def user_model_def aerich_model_def
        table_of_def)
  show ?thesis
    using h diff_identical_models [OF h, of sample_ddl "''mysql''" always_yes False Migrate_class]
    by (simp add: pop_def Migrate_class_def)
qed

section \<open>Properties of the version manager\<close>

lemma digit_char_cases:
  assumes "d < 10"
  shows "d = 0 \<or> d = 1 \<or> d = 2 \<or> d = 3 \<or> d = 4 \<or> d = 5 \<or> d = 6 \<or> d = 7 \<or> d = 8 \<or> d = (9::nat)"
  using assms by arith

lemma of_char_digit: "d < 10 \<Longrightarrow> (of_char (digit_char d) :: nat) = 48 + d"
  using digit_char_cases [of d] by (auto simp add: digit_char_def)

lemma is_digit_digit_char: "d < 10 \<Longrightarrow> is_digit (digit_char d)"
  by (simp add: is_digit_def of_char_digit)

lemma nat_str_digits: "list_all is_digit (nat_str n)"
proof (induction n rule: nat_str.induct)
  case (1 n)
  show ?case
  proof (cases "n < 10")
    case True
    then show ?thesis by (subst nat_str.simps) (simp add: is_digit_digit_char)
  next
    case False
    with 1 have "list_all is_digit (nat_str (n div 10))" by simp
    moreover have "is_digit (digit_char (n mod 10))" by (simp add: is_digit_digit_char)
    ultimately show ?thesis using False by (subst nat_str.simps) simp
  qed
qed

lemma nat_str_nonempty: "nat_str n \<noteq> []"
  by (subst nat_str.simps) simp

lemma digits_val_snoc: "digits_val (cs @ [c]) acc = 10 * digits_val cs acc + (of_char c - 48)"
  by (induction cs arbitrary: acc) simp_all

lemma digits_val_nat_str: "digits_val (nat_str n) 0 = n"
proof (induction n rule: nat_str.induct)
  case (1 n)
  show ?case
  proof (cases "n < 10")
    case True
    then show ?thesis by (subst nat_str.simps) (simp add: of_char_digit)
  next
    case False
    with 1 have ih: "digits_val (nat_str (n div 10)) 0 = n div 10" by simp
    have "digits_val (nat_str n) 0 = digits_val (nat_str (n div 10) @ [digit_char (n mod 10)]) 0"
      using False by (subst nat_str.simps) simp
    also have "\<dots> = 10 * (n div 10) + n mod 10"
      by (simp add: digits_val_snoc ih of_char_digit)
    finally show ?thesis by simp
  qed
qed

lemma is_digit_not_special:
  "is_digit c \<Longrightarrow> \<not> is_space c \<and> c \<noteq> CHR ''_'' \<and> c \<noteq> CHR ''-'' \<and> c \<noteq> CHR ''+''"
  by (auto simp add: is_digit_def is_space_def)


lemma dropWhile_id: "s \<noteq> [] \<Longrightarrow> \<not> P (hd s) \<Longrightarrow> dropWhile P s = s"
  by (cases s) simp_all

lemma strip_id:
  assumes "s \<noteq> []" and "\<not> is_space (hd s)" and "\<not> is_space (last s)"
  shows "strip s = s"
proof -
  have "dropWhile is_space s = s" using assms(1,2) by (rule dropWhile_id)
  moreover have "dropWhile is_space (rev s) = rev s"
    using assms(1,3) by (intro dropWhile_id) (simp_all add: hd_rev)
  ultimately show ?thesis by (simp add: strip_def)
qed

lemma nat_str_hd: "is_digit (hd (nat_str n))"
  using nat_str_digits [of n] nat_str_nonempty [of n] by (cases "nat_str n") simp_all

lemma nat_str_last: "is_digit (last (nat_str n))"
  using nat_str_digits [of n] nat_str_nonempty [of n]
  by (metis last_in_set list_all_iff)

lemma unsigned_int_nat_str: "unsigned_int s (nat_str n) = Inr n"
  by (simp add: unsigned_int_def nat_str_nonempty nat_str_digits digits_val_nat_str)

lemma py_int_str_int: "py_int (str_int m) = Inr m"
proof (cases "m < 0")
  case True
  let ?s = "CHR ''-'' # nat_str (nat (- m))"
  have "last ?s = last (nat_str (nat (- m)))" by (simp add: nat_str_nonempty)
  then have "\<not> is_space (last ?s)" using nat_str_last is_digit_not_special by metis
  moreover have "\<not> is_space (hd ?s)" by (simp add: is_space_def)
  ultimately have "strip ?s = ?s" by (intro strip_id) simp_all
  then show ?thesis using True by (simp add: py_int_def str_int_def unsigned_int_nat_str)
next
  case False
  let ?s = "nat_str (nat m)"
  obtain c cs where s: "?s = c # cs" using nat_str_nonempty [of "nat m"] by (cases ?s) auto
  have d: "is_digit c" using nat_str_hd [of "nat m"] s by simp
  have "strip ?s = ?s"
    using nat_str_nonempty nat_str_hd nat_str_last is_digit_not_special by (intro strip_id) metis+
  moreover have "unsigned_int ?s (c # cs) = Inr (nat m)"
    using unsigned_int_nat_str [of ?s "nat m"] s by simp
  ultimately show ?thesis
    using False s is_digit_not_special [OF d] by (simp add: py_int_def str_int_def)
qed

lemma str_int_no_underscore: "c \<in> set (str_int m) \<Longrightarrow> c \<noteq> CHR ''_''"
  using nat_str_digits is_digit_not_special
  by (auto simp add: str_int_def list_all_iff split: if_splits)

lemma sequence_of_version:
  "get_last_version_num (Some (str_int m @ CHR ''_'' # rest)) = Inr (Some m)"
proof -
  have "takeWhile (\<lambda>c. c \<noteq> CHR ''_'') (str_int m @ CHR ''_'' # rest) = str_int m"
    using str_int_no_underscore [of _ m] by (simp add: takeWhile_append2)
  then show ?thesis by (simp add: get_last_version_num_def py_int_str_int)
qed

text \<open>
  C8: without a prior version the result is sequence 0 with the label \<open>init\<close>, whatever
  name was asked for. With a prior version of sequence \<open>n\<close> the call either raises
  the length error or returns a version whose sequence, read back the same way, is
  \<open>n + 1\<close>, for every label and timestamp: successive sequence numbers increase
  strictly.
\<close>

theorem generate_version_sequence:
  "generate_version now None name = Inr (''0_'' @ now @ ''_init.json'')
   \<and> get_last_version_num (Some (''0_'' @ now @ ''_init.json'')) = Inr (Some 0)
   \<and> (get_last_version_num (Some version) = Inr (Some n) \<longrightarrow>
        generate_version now (Some version) name =
          (if length (str_int (n + 1) @ ''_'' @ now @ ''_'' @ format_name name @ ''.json'') > 255
           then Inl (ValueError ''Version name exceeds maximum length (255)'')
           else Inr (str_int (n + 1) @ ''_'' @ now @ ''_'' @ format_name name @ ''.json''))
        \<and> get_last_version_num
            (Some (str_int (n + 1) @ ''_'' @ now @ ''_'' @ format_name name @ ''.json''))
          = Inr (Some (n + 1))
        \<and> n < n + 1)"
proof -
  have a: "generate_version now None name = Inr (''0_'' @ now @ ''_init.json'')"
    by (simp add: generate_version_def get_last_version_num_def)
  have "str_int 0 = ''0''" by (simp add: str_int_def nat_str.simps digit_char_def)
  with sequence_of_version [of 0 "now @ ''_init.json''"]
  have b: "get_last_version_num (Some (''0_'' @ now @ ''_init.json'')) = Inr (Some 0)" by simp
  have c: "get_last_version_num
             (Some (str_int (n + 1) @ ''_'' @ now @ ''_'' @ format_name name @ ''.json''))
           = Inr (Some (n + 1))"
    using sequence_of_version [of "n + 1" "now @ ''_'' @ format_name name @ ''.json''"] by simp
  show ?thesis using a b c by (simp add: generate_version_def Let_def)
qed

theorem generate_version_sequence_witness:
  "get_last_version_num (Some ''3_20191231235959_add.json'') = Inr (Some 3)
   \<and> generate_version ''20200101000000'' (Some ''3_20191231235959_add.json'') (Some ''drop'')
       = Inr ''4_20200101000000_drop.json''
   \<and> get_last_version_num (Some ''4_20200101000000_drop.json'') = Inr (Some 4)"
proof -
  have h: "get_last_version_num (Some ''3_20191231235959_add.json'') = Inr (Some 3)"
    by (simp add: get_last_version_num_def py_int_def strip_def is_space_def unsigned_int_def
        is_digit_def)
  have s: "str_int 4 = ''4''" by (simp add: str_int_def nat_str.simps digit_char_def)
  show ?thesis
    using h generate_version_sequence [of "''20200101000000''" "Some ''drop''"
        "''3_20191231235959_add.json''" 3]
    by (simp add: s format_name_def)
qed

section \<open>What a pass keeps\<close>

lemmas differ_defs =
  diff_models_def diff_model_def pop_def table_of_def plain_field_def exclude_field_def
  is_fk_m2m_def diff_column_def diff_column_index_def describe_def jopt_def emit_def add_operator_def
  rename_field_def remove_field_def add_field_def add_index_def remove_index_def add_model_def
  remove_model_def modify_field_def resolve_fk_fields_name_def rename_back_def
  merge_operators_def creates_def Migrate_class_def always_yes_def sample_ddl_def Let_def

lemmas sample_defs =
  user_model_def aerich_model_def a_old_def a_new_def b_old_def b_new_def indexed_name_def
  unique_name_def

lemmas version_defs =
  migrate_def generate_diff_sql_def generate_version_def get_last_version_num_def py_int_def
  strip_def is_space_def unsigned_int_def is_digit_def str_int_def nat_str.simps digit_char_def
  format_name_def

lemma keeps_refl [simp]: "keeps st st"
  by (simp add: keeps_def)

lemma keeps_trans: "keeps a b \<Longrightarrow> keeps b c \<Longrightarrow> keeps a c"
  unfolding keeps_def by blast

lemma keeps_operators_of: "keeps st st' \<Longrightarrow> set (operators_of upgrade fk st) \<subseteq> set (operators_of upgrade fk st')"
  by (simp add: keeps_def operators_of_def)

lemma keeps_add_operator [simp]: "keeps st (add_operator operator upgrade fk st)"
  by (auto simp add: keeps_def add_operator_def)

lemma add_operator_in: "operator \<in> set (operators_of upgrade fk (add_operator operator upgrade fk st))"
  by (simp add: operators_of_def add_operator_def)

lemma keeps_reflex [simp]: "keeps st (st\<lparr>column_reflex := r\<rparr>)" "keeps st (st\<lparr>asked := a\<rparr>)"
  by (simp_all add: keeps_def)

lemma emit_Inr: "emit r upgrade fk st = Inr st' \<Longrightarrow> \<exists>operator. r = Inr operator \<and> st' = add_operator operator upgrade fk st"
  by (cases r) (auto simp add: emit_def)

lemma keeps_emit: "emit r upgrade fk st = Inr st' \<Longrightarrow> keeps st st'"
  by (auto dest: emit_Inr)

lemma keeps_exclude_field: "keeps st (snd (exclude_field f upgrade st))"
  by (auto simp add: exclude_field_def keeps_def)

lemma keeps_diff_column: "diff_column d dialect new_model old_field new_field upgrade st = Inr st' \<Longrightarrow> keeps st st'"
  unfolding diff_column_def and_then_def
  by (auto split: if_splits sum.splits dest!: keeps_emit intro: keeps_trans)

lemma keeps_diff_column_index:
  "diff_column_index d old_model new_model old_field new_field upgrade st = Inr st' \<Longrightarrow> keeps st st'"
  unfolding diff_column_index_def
  by (auto split: if_splits dest!: keeps_emit)


lemma keeps_diff_new_keys:
  "diff_new_keys d dialect old_model new_model upgrade fs changed st = Inr (changed', st')
   \<Longrightarrow> keeps st st'"
proof (induction fs arbitrary: changed st)
  case Nil
  then show ?case by simp
next
  case (Cons kf fs)
  obtain k f where kf: "kf = (k, f)" by (cases kf)
  obtain ex st1 where ex: "exclude_field f upgrade st = (ex, st1)"
    by (cases "exclude_field f upgrade st")
  have k1: "keeps st st1" using keeps_exclude_field [of st f upgrade] ex by simp
  show ?case
  proof (cases ex)
    case True
    with Cons.prems kf ex
    have "diff_new_keys d dialect old_model new_model upgrade fs changed st1 = Inr (changed', st')"
      by simp
    from Cons.IH [OF this] k1 show ?thesis by (rule keeps_trans [rotated])
  next
    case False
    show ?thesis
    proof (cases "map_of (fields_map old_model) k")
      case None
      with Cons.prems kf ex False
      have "diff_new_keys d dialect old_model new_model upgrade fs (AList.update k f changed) st1
            = Inr (changed', st')" by simp
      from Cons.IH [OF this] k1 show ?thesis by (rule keeps_trans [rotated])
    next
      case (Some old_field)
      with Cons.prems kf ex False obtain st2 st3 where
        a: "diff_column d dialect new_model old_field f upgrade st1 = Inr st2"
        and b: "diff_column_index d old_model new_model old_field f upgrade st2 = Inr st3"
        and c: "diff_new_keys d dialect old_model new_model upgrade fs changed st3 = Inr (changed', st')"
        by (auto split: sum.splits)
      from keeps_diff_column [OF a] keeps_diff_column_index [OF b] Cons.IH [OF c] k1
      show ?thesis by (blast intro: keeps_trans)
    qed
  qed
qed

lemma keeps_rename_loop:
  "rename_loop d ask old_model new_model f items changed st = Inr (changed', st') \<Longrightarrow> keeps st st'"
proof (induction items arbitrary: st)
  case Nil
  then show ?case by (auto simp add: and_then_def split: sum.splits dest!: keeps_emit)
next
  case (Cons kf items)
  obtain nk nf where kf: "kf = (nk, nf)" by (cases kf)
  let ?st1 = "st\<lparr>asked := asked st @ [(model_field_name f, model_field_name nf)]\<rparr>"
  show ?case
  proof (cases "pop ''db_column'' (pop ''name'' (describe f)) = pop ''db_column'' (pop ''name'' (describe nf))")
    case False
    with Cons.prems kf have "rename_loop d ask old_model new_model f items changed st = Inr (changed', st')"
      by simp
    then show ?thesis by (rule Cons.IH)
  next
    case same: True
    show ?thesis
    proof (cases "ask (model_field_name f) (model_field_name nf)")
      case False
      with Cons.prems kf same
      have "rename_loop d ask old_model new_model f items changed ?st1 = Inr (changed', st')"
        by (simp add: Let_def)
      from Cons.IH [OF this] have "keeps ?st1 st'" .
      moreover have "keeps st ?st1" by simp
      ultimately show ?thesis by (rule keeps_trans [rotated])
    next
      case True
      with Cons.prems kf same obtain st2 where
        e: "emit (rename_field d new_model (model_field_name f) nf) True (is_fk_m2m nf) ?st1 = Inr st2"
        and r: "st' = st2\<lparr>column_reflex :=
                  AList.update (model_field_name nf) (model_field_name f) (column_reflex st2)\<rparr>"
        by (auto simp add: Let_def and_then_def split: sum.splits)
      have "keeps st ?st1" by simp
      moreover from keeps_emit [OF e] have "keeps ?st1 st2" .
      moreover have "keeps st2 st'" by (simp add: r)
      ultimately show ?thesis by (blast intro: keeps_trans)
    qed
  qed
qed

lemma keeps_rename_back:
  "rename_back d old_model new_model f changed st = Inr (changed', st') \<Longrightarrow> keeps st st'"
  unfolding rename_back_def and_then_def
  by (auto split: option.splits list.splits sum.splits dest!: keeps_emit
      intro: keeps_trans [OF _ keeps_reflex(1)])


lemma keeps_diff_old_keys:
  "diff_old_keys d ask old_model new_model upgrade fs changed st = Inr (changed', st')
   \<Longrightarrow> keeps st st'"
proof (induction fs arbitrary: changed st)
  case Nil
  then show ?case by simp
next
  case (Cons kf fs)
  obtain k f where kf: "kf = (k, f)" by (cases kf)
  show ?case
  proof (cases "map_of (fields_map new_model) k \<noteq> None")
    case True
    with Cons.prems kf
    have "diff_old_keys d ask old_model new_model upgrade fs changed st = Inr (changed', st')"
      by simp
    then show ?thesis by (rule Cons.IH)
  next
    case absent: False
    obtain ex st1 where ex: "exclude_field f upgrade st = (ex, st1)"
      by (cases "exclude_field f upgrade st")
    have k1: "keeps st st1" using keeps_exclude_field [of st f upgrade] ex by simp
    show ?thesis
    proof (cases ex)
      case True
      with Cons.prems kf ex absent
      have "diff_old_keys d ask old_model new_model upgrade fs changed st1 = Inr (changed', st')"
        by simp
      from Cons.IH [OF this] k1 show ?thesis by (rule keeps_trans [rotated])
    next
      case False
      let ?r = "if upgrade then rename_loop d ask old_model new_model f changed changed st1
                else rename_back d old_model new_model f changed st1"
      from Cons.prems kf ex absent False obtain changed2 st2 where
        a: "?r = Inr (changed2, st2)"
        and b: "diff_old_keys d ask old_model new_model upgrade fs changed2 st2 = Inr (changed', st')"
        by (auto split: sum.splits)
      from a have "keeps st1 st2"
        by (auto split: if_splits dest: keeps_rename_loop keeps_rename_back)
      with Cons.IH [OF b] k1 show ?thesis by (blast intro: keeps_trans)
    qed
  qed
qed

lemma keeps_add_fields:
  "add_fields d new_model upgrade items st = Inr st' \<Longrightarrow> keeps st st'"
proof (induction items arbitrary: st)
  case Nil
  then show ?case by simp
next
  case (Cons kf items)
  obtain nk nf where kf: "kf = (nk, nf)" by (cases kf)
  from Cons.prems kf obtain st1 where
    a: "emit (add_field d new_model nf) upgrade (is_fk_m2m nf) st = Inr st1"
    and b: "add_fields d new_model upgrade items st1 = Inr st'"
    by (auto split: sum.splits)
  from keeps_emit [OF a] Cons.IH [OF b] show ?case by (rule keeps_trans)
qed

lemma keeps_add_indexes:
  "add_indexes d new_model unique upgrade xs ys st = Inr st' \<Longrightarrow> keeps st st'"
proof (induction xs arbitrary: st)
  case Nil
  then show ?case by simp
next
  case (Cons x xs)
  show ?case
  proof (cases "x \<in> set ys")
    case True
    with Cons.prems have "add_indexes d new_model unique upgrade xs ys st = Inr st'" by simp
    then show ?thesis by (rule Cons.IH)
  next
    case False
    with Cons.prems obtain st1 where
      a: "emit (add_index d new_model x unique) upgrade False st = Inr st1"
      and b: "add_indexes d new_model unique upgrade xs ys st1 = Inr st'"
      by (auto split: sum.splits)
    from keeps_emit [OF a] Cons.IH [OF b] show ?thesis by (rule keeps_trans)
  qed
qed

lemma keeps_remove_indexes:
  "remove_indexes d old_model unique upgrade xs ys st = Inr st' \<Longrightarrow> keeps st st'"
proof (induction xs arbitrary: st)
  case Nil
  then show ?case by simp
next
  case (Cons x xs)
  show ?case
  proof (cases "x \<in> set ys")
    case True
    with Cons.prems have "remove_indexes d old_model unique upgrade xs ys st = Inr st'" by simp
    then show ?thesis by (rule Cons.IH)
  next
    case False
    with Cons.prems obtain st1 where
      a: "emit (remove_index d old_model x unique) upgrade False st = Inr st1"
      and b: "remove_indexes d old_model unique upgrade xs ys st1 = Inr st'"
      by (auto split: sum.splits)
    from keeps_emit [OF a] Cons.IH [OF b] show ?thesis by (rule keeps_trans)
  qed
qed

lemma and_then_Inr: "and_then r f = Inr y \<Longrightarrow> \<exists>x. r = Inr x \<and> f x = Inr y"
  by (cases r) simp_all

lemma diff_model_steps:
  assumes "diff_model d dialect ask old_model new_model upgrade st = Inr st'"
  shows "\<exists>changed1 st1. diff_new_keys d dialect old_model new_model upgrade (fields_map new_model) [] st
            = Inr (changed1, st1) \<and> keeps st1 st'"
proof -
  from assms obtain changed1 st1 changed2 st2 st3 st4 st5 st6 where
    a: "diff_new_keys d dialect old_model new_model upgrade (fields_map new_model) [] st
          = Inr (changed1, st1)"
    and b: "diff_old_keys d ask old_model new_model upgrade (fields_map old_model) changed1 st1
          = Inr (changed2, st2)"
    and c: "add_fields d new_model upgrade changed2 st2 = Inr st3"
    and e: "add_indexes d new_model False upgrade (indexes new_model) (indexes old_model) st3 = Inr st4"
    and f: "remove_indexes d old_model False upgrade (indexes old_model) (indexes new_model) st4 = Inr st5"
    and g: "add_indexes d new_model True upgrade (unique_together new_model)
              (unique_together old_model) st5 = Inr st6"
    and h: "remove_indexes d old_model True upgrade (unique_together old_model)
              (unique_together new_model) st6 = Inr st'"
    unfolding diff_model_def by (auto dest!: and_then_Inr)
  from keeps_diff_old_keys [OF b] keeps_add_fields [OF c] keeps_add_indexes [OF e]
    keeps_remove_indexes [OF f] keeps_add_indexes [OF g] keeps_remove_indexes [OF h]
  have "keeps st1 st'" by (blast intro: keeps_trans)
  with a show ?thesis by blast
qed

lemma keeps_diff_model:
  assumes "diff_model d dialect ask old_model new_model upgrade st = Inr st'"
  shows "keeps st st'"
proof -
  from diff_model_steps [OF assms] obtain changed1 st1 where
    a: "diff_new_keys d dialect old_model new_model upgrade (fields_map new_model) [] st
          = Inr (changed1, st1)" and b: "keeps st1 st'" by blast
  from keeps_diff_new_keys [OF a] b show ?thesis by (rule keeps_trans)
qed

section \<open>Index and unique flags of a column\<close>

lemma exclude_field_column:
  "role f = Plain \<or> role f = ForeignKeyFieldInstance \<Longrightarrow> exclude_field f upgrade st = (False, st)"
  by (auto simp add: exclude_field_def)

lemma diff_column_index_emits:
  assumes "diff_column_index d old_model new_model old_field new_field upgrade st = Inr st'"
  shows "((f_index old_field \<and> \<not> f_index new_field) \<or> (f_unique old_field \<and> \<not> f_unique new_field)
          \<longrightarrow> (\<exists>s. remove_index d old_model [model_field_name old_field] (f_unique old_field) = Inr s
                   \<and> s \<in> set (operators_of upgrade (is_fk_m2m old_field) st')))
       \<and> (\<not> ((f_index old_field \<and> \<not> f_index new_field) \<or> (f_unique old_field \<and> \<not> f_unique new_field))
          \<and> ((f_index new_field \<and> \<not> f_index old_field) \<or> (f_unique new_field \<and> \<not> f_unique old_field))
          \<longrightarrow> (\<exists>s. add_index d new_model [model_field_name new_field] (f_unique new_field) = Inr s
                   \<and> s \<in> set (operators_of upgrade (is_fk_m2m new_field) st')))"
proof (intro conjI impI)
  assume lost: "(f_index old_field \<and> \<not> f_index new_field) \<or> (f_unique old_field \<and> \<not> f_unique new_field)"
  with assms have "emit (remove_index d old_model [model_field_name old_field] (f_unique old_field))
                     upgrade (is_fk_m2m old_field) st = Inr st'"
    by (simp add: diff_column_index_def)
  from emit_Inr [OF this] add_operator_in
  show "\<exists>s. remove_index d old_model [model_field_name old_field] (f_unique old_field) = Inr s
            \<and> s \<in> set (operators_of upgrade (is_fk_m2m old_field) st')" by blast
next
  assume "\<not> ((f_index old_field \<and> \<not> f_index new_field) \<or> (f_unique old_field \<and> \<not> f_unique new_field))
          \<and> ((f_index new_field \<and> \<not> f_index old_field) \<or> (f_unique new_field \<and> \<not> f_unique old_field))"
  with assms have "emit (add_index d new_model [model_field_name new_field] (f_unique new_field))
                     upgrade (is_fk_m2m new_field) st = Inr st'"
    by (simp add: diff_column_index_def)
  from emit_Inr [OF this] add_operator_in
  show "\<exists>s. add_index d new_model [model_field_name new_field] (f_unique new_field) = Inr s
            \<and> s \<in> set (operators_of upgrade (is_fk_m2m new_field) st')" by blast
qed

lemma diff_new_keys_compares:
  assumes "diff_new_keys d dialect old_model new_model upgrade fs changed st = Inr (changed', st')"
    and "(k, new_field) \<in> set fs"
    and "map_of (fields_map old_model) k = Some old_field"
    and "role new_field = Plain \<or> role new_field = ForeignKeyFieldInstance"
  shows "\<exists>st2 st3. diff_column_index d old_model new_model old_field new_field upgrade st2 = Inr st3
                   \<and> keeps st3 st'"
  using assms(1,2)
proof (induction fs arbitrary: changed st)
  case Nil
  then show ?case by simp
next
  case (Cons kf fs)
  obtain k0 f0 where kf: "kf = (k0, f0)" by (cases kf)
  show ?case
  proof (cases "kf = (k, new_field)")
    case True
    with Cons.prems(1) assms(3) exclude_field_column [OF assms(4), of upgrade st]
    obtain st2 st3 where
      a: "diff_column_index d old_model new_model old_field new_field upgrade st2 = Inr st3"
      and b: "diff_new_keys d dialect old_model new_model upgrade fs changed st3 = Inr (changed', st')"
      by (auto split: sum.splits)
    from keeps_diff_new_keys [OF b] a show ?thesis by blast
  next
    case False
    with Cons.prems(2) have mem: "(k, new_field) \<in> set fs" by simp
    obtain ex st1 where ex: "exclude_field f0 upgrade st = (ex, st1)"
      by (cases "exclude_field f0 upgrade st")
    from Cons.prems(1) kf ex obtain changed1 st1' where
      "diff_new_keys d dialect old_model new_model upgrade fs changed1 st1' = Inr (changed', st')"
      by (auto split: if_splits option.splits sum.splits)
    from Cons.IH [OF this mem] show ?thesis .
  qed
qed

lemma index_flags_emitted:
  assumes "diff_model d dialect ask old_model new_model upgrade st = Inr st'"
    and "(k, new_field) \<in> set (fields_map new_model)"
    and "map_of (fields_map old_model) k = Some old_field"
    and "role new_field = Plain \<or> role new_field = ForeignKeyFieldInstance"
  shows "((f_index old_field \<and> \<not> f_index new_field) \<or> (f_unique old_field \<and> \<not> f_unique new_field)
          \<longrightarrow> (\<exists>s. remove_index d old_model [model_field_name old_field] (f_unique old_field) = Inr s
                   \<and> s \<in> set (operators_of upgrade (is_fk_m2m old_field) st')))
       \<and> (\<not> ((f_index old_field \<and> \<not> f_index new_field) \<or> (f_unique old_field \<and> \<not> f_unique new_field))
          \<and> ((f_index new_field \<and> \<not> f_index old_field) \<or> (f_unique new_field \<and> \<not> f_unique old_field))
          \<longrightarrow> (\<exists>s. add_index d new_model [model_field_name new_field] (f_unique new_field) = Inr s
                   \<and> s \<in> set (operators_of upgrade (is_fk_m2m new_field) st')))"
proof -
  from diff_model_steps [OF assms(1)] obtain changed1 st1 where
    a: "diff_new_keys d dialect old_model new_model upgrade (fields_map new_model) [] st
          = Inr (changed1, st1)" and b: "keeps st1 st'" by blast
  from diff_new_keys_compares [OF a assms(2,3,4)] obtain st2 st3 where
    c: "diff_column_index d old_model new_model old_field new_field upgrade st2 = Inr st3"
    and e: "keeps st3 st1" by blast
  from e b have "keeps st3 st'" by (rule keeps_trans)
  from keeps_operators_of [OF this] diff_column_index_emits [OF c]
  show ?thesis by blast
qed

lemma m2m_only_eq:
  "m2m_only a b \<Longrightarrow> b = a\<lparr>upgrade_m2m := upgrade_m2m b, downgrade_m2m := downgrade_m2m b\<rparr>"
  by (cases a, cases b) (simp add: m2m_only_def)

lemma add_operator_m2m:
  "add_operator operator upgrade fk (st\<lparr>upgrade_m2m := u, downgrade_m2m := w\<rparr>)
   = (add_operator operator upgrade fk st)\<lparr>upgrade_m2m := u, downgrade_m2m := w\<rparr>"
  by (simp add: add_operator_def)

lemma m2m_only_add_operator:
  "m2m_only a b \<Longrightarrow> m2m_only (add_operator operator upgrade fk a) (add_operator operator upgrade fk b)"
  by (simp add: m2m_only_def add_operator_def)

lemma emit_after_m2m:
  assumes "m2m_only (add_operator operator upgrade fk st) st3"
  shows "\<exists>st'. m2m_only st st' \<and> add_operator operator upgrade fk st' = st3"
proof -
  let ?st' = "st\<lparr>upgrade_m2m := upgrade_m2m st3, downgrade_m2m := downgrade_m2m st3\<rparr>"
  have "m2m_only st ?st'" by (simp add: m2m_only_def)
  moreover have "add_operator operator upgrade fk ?st' = st3"
    using m2m_only_eq [OF assms] by (simp add: add_operator_m2m)
  ultimately show ?thesis by blast
qed

lemma diff_column_unique_only:
  "diff_column d dialect new_model f (f\<lparr>f_unique := True\<rparr>) upgrade st = Inr st"
  by (simp add: diff_column_def describe_def pop_def split: option.split)

lemma diff_column_index_gains_unique:
  "\<not> f_unique f \<Longrightarrow>
   diff_column_index d old_model new_model f (f\<lparr>f_unique := True\<rparr>) upgrade st
   = emit (add_index d new_model [model_field_name f] True) upgrade (is_fk_m2m f) st"
  by (simp add: diff_column_index_def is_fk_m2m_def)

lemma diff_new_keys_gains_unique:
  assumes "distinct (map fst fs)" and "map_of fs k = Some f"
    and "\<forall>(k', g) \<in> set fs. map_of (fields_map old_model) k' = Some g"
    and "\<not> f_unique f" and "role f = Plain \<or> role f = ForeignKeyFieldInstance"
  shows "\<exists>st'. m2m_only st st'
           \<and> diff_new_keys d dialect old_model new_model upgrade
                (AList.update k (f\<lparr>f_unique := True\<rparr>) fs) changed st
             = and_then (emit (add_index d new_model [model_field_name f] True) upgrade
                          (is_fk_m2m f) st')
                 (\<lambda>s. Inr (changed, s))"
  using assms(1,2,3)
proof (induction fs arbitrary: st)
  case Nil
  then show ?case by simp
next
  case (Cons kg fs)
  obtain k0 g where kg: "kg = (k0, g)" by (cases kg)
  from Cons.prems(3) have rest: "\<forall>(k', g) \<in> set fs. map_of (fields_map old_model) k' = Some g"
    by simp
  let ?e = "emit (add_index d new_model [model_field_name f] True) upgrade (is_fk_m2m f)"
  show ?case
  proof (cases "k0 = k")
    case True
    with Cons.prems(2) kg have g: "g = f" by simp
    from Cons.prems(3) kg True g have old: "map_of (fields_map old_model) k = Some f" by simp
    have ex: "exclude_field (f\<lparr>f_unique := True\<rparr>) upgrade st = (False, st)"
      using assms(5) by (intro exclude_field_column) simp
    have step: "diff_new_keys d dialect old_model new_model upgrade
                  (AList.update k (f\<lparr>f_unique := True\<rparr>) (kg # fs)) changed st
                = (case ?e st of Inl e \<Rightarrow> Inl e
                   | Inr st3 \<Rightarrow> diff_new_keys d dialect old_model new_model upgrade fs changed st3)"
      using kg True ex old assms(4)
      by (simp add: diff_column_unique_only diff_column_index_gains_unique)
    show ?thesis
    proof (cases "?e st")
      case (Inl e)
      with step have "diff_new_keys d dialect old_model new_model upgrade
                  (AList.update k (f\<lparr>f_unique := True\<rparr>) (kg # fs)) changed st
                = and_then (?e st) (\<lambda>s. Inr (changed, s))" by simp
      moreover have "m2m_only st st" by simp
      ultimately show ?thesis by blast
    next
      case (Inr st2)
      from emit_Inr [OF Inr] obtain operator where
        r: "add_index d new_model [model_field_name f] True = Inr operator"
        and st2: "st2 = add_operator operator upgrade (is_fk_m2m f) st" by blast
      from diff_new_keys_same [OF rest, of d dialect new_model upgrade changed st2] obtain st3 where
        a: "diff_new_keys d dialect old_model new_model upgrade fs changed st2 = Inr (changed, st3)"
        and m: "m2m_only st2 st3" by blast
      from emit_after_m2m [OF m [unfolded st2]] obtain st' where
        m': "m2m_only st st'" and eq: "add_operator operator upgrade (is_fk_m2m f) st' = st3" by blast
      have "?e st' = Inr st3" using r eq by (simp add: emit_def)
      with step Inr a have "diff_new_keys d dialect old_model new_model upgrade
                  (AList.update k (f\<lparr>f_unique := True\<rparr>) (kg # fs)) changed st
                = and_then (?e st') (\<lambda>s. Inr (changed, s))" by simp
      with m' show ?thesis by blast
    qed
  next
    case False
    with Cons.prems(2) kg have look: "map_of fs k = Some f" by simp
    from Cons.prems(1) have dist: "distinct (map fst fs)" by simp
    from Cons.prems(3) kg have old: "map_of (fields_map old_model) k0 = Some g" by simp
    obtain ex st1 where ex: "exclude_field g upgrade st = (ex, st1)"
      by (cases "exclude_field g upgrade st")
    have m1: "m2m_only st st1" using exclude_field_m2m_only [of st g upgrade] ex by simp
    from Cons.IH [OF dist look rest, of st1] obtain st' where
      m2: "m2m_only st1 st'"
      and eq: "diff_new_keys d dialect old_model new_model upgrade
                 (AList.update k (f\<lparr>f_unique := True\<rparr>) fs) changed st1
               = and_then (?e st') (\<lambda>s. Inr (changed, s))" by blast
    have "diff_new_keys d dialect old_model new_model upgrade
            (AList.update k (f\<lparr>f_unique := True\<rparr>) (kg # fs)) changed st
          = and_then (?e st') (\<lambda>s. Inr (changed, s))"
      using kg False ex old eq by simp
    with m1 m2 show ?thesis by (blast intro: m2m_only_trans)
  qed
qed

text \<open>
  C3: when the new model is the old one except that one column (plain or foreign key)
  has its unique flag going from false to true, one pass of \<open>diff_model\<close> is exactly one
  call of \<open>_add_operator\<close> with the \<open>AddIndex\<close> statement for that column with the unique
  flag set: nothing else is appended to any operator list, in particular no
  \<open>ModifyColumn\<close> (and when the generator raises on that statement, so does the pass).
  For \<open>User{name}\<close> against \<open>User{name, unique}\<close> the upgrade list is that one statement.
\<close>

theorem gaining_unique_adds_one_index:
  assumes "distinct (map fst (fields_map old_model))"
    and "map_of (fields_map old_model) k = Some f"
    and "\<not> f_unique f"
    and "role f = Plain \<or> role f = ForeignKeyFieldInstance"
    and "new_model = old_model\<lparr>fields_map :=
            AList.update k (f\<lparr>f_unique := True\<rparr>) (fields_map old_model)\<rparr>"
  shows "\<exists>st'. m2m_only st st'
           \<and> diff_model d dialect ask old_model new_model upgrade st
             = emit (add_index d new_model [model_field_name f] True) upgrade (is_fk_m2m f) st'"
proof -
  let ?e = "emit (add_index d new_model [model_field_name f] True) upgrade (is_fk_m2m f)"
  have all: "\<forall>(k', g) \<in> set (fields_map old_model). map_of (fields_map old_model) k' = Some g"
    using assms(1) by auto
  from diff_new_keys_gains_unique [OF assms(1,2) all assms(3,4), of st d dialect new_model upgrade "[]"]
  obtain st' where m: "m2m_only st st'"
    and eq: "diff_new_keys d dialect old_model new_model upgrade (fields_map new_model) [] st
             = and_then (?e st') (\<lambda>s. Inr ([], s))"
    by (auto simp add: assms(5))
  have present: "\<forall>(k', g) \<in> set (fields_map old_model). map_of (fields_map new_model) k' \<noteq> None"
    by (auto simp add: assms(5) update_conv' weak_map_of_SomeI)
  have "diff_model d dialect ask old_model new_model upgrade st = ?e st'"
  proof (cases "?e st'")
    case (Inl e)
    with eq show ?thesis by (simp add: diff_model_def)
  next
    case (Inr s)
    with eq have "diff_new_keys d dialect old_model new_model upgrade (fields_map new_model) [] st
                  = Inr ([], s)" by simp
    moreover have "indexes new_model = indexes old_model"
      and "unique_together new_model = unique_together old_model"
      by (simp_all add: assms(5))
    ultimately have "diff_model d dialect ask old_model new_model upgrade st = Inr s"
      by (simp add: diff_model_def diff_old_keys_same [OF present] add_indexes_same
          remove_indexes_same)
    with Inr show ?thesis by simp
  qed
  with m show ?thesis by blast
qed

theorem gaining_unique_adds_one_index_witness:
  "distinct (map fst (fields_map (table_of ''user'' [(''name'', plain_field ''name'' ''CharField'')])))
   \<and> (\<exists>st'. m2m_only Migrate_class st'
         \<and> diff_model sample_ddl ''mysql'' always_yes
             (table_of ''user'' [(''name'', plain_field ''name'' ''CharField'')])
             (table_of ''user'' [(''name'', unique_name)]) True Migrate_class
           = Inr (st'\<lparr>upgrade_operators := [''ALTER TABLE user ADD UNIQUE INDEX (name)'']\<rparr>))"
proof -
  let ?old = "table_of ''user'' [(''name'', plain_field ''name'' ''CharField'')]"
  let ?new = "table_of ''user'' [(''name'', unique_name)]"
  have h1: "distinct (map fst (fields_map ?old))" by (simp add: table_of_def)
  have h2: "map_of (fields_map ?old) ''name'' = Some (plain_field ''name'' ''CharField'')"
    by (simp add: table_of_def)
  have h3: "\<not> f_unique (plain_field ''name'' ''CharField'')" by (simp add: plain_field_def)
  have h4: "role (plain_field ''name'' ''CharField'') = Plain
            \<or> role (plain_field ''name'' ''CharField'') = ForeignKeyFieldInstance"
    by (simp add: plain_field_def)
  have h5: "?new = ?old\<lparr>fields_map :=
              AList.update ''name'' ((plain_field ''name'' ''CharField'')\<lparr>f_unique := True\<rparr>)
                (fields_map ?old)\<rparr>"
    by (simp add: table_of_def unique_name_def)
  from gaining_unique_adds_one_index [OF h1 h2 h3 h4 h5, of Migrate_class sample_ddl "''mysql''"
      always_yes True]
  obtain st' where m: "m2m_only Migrate_class st'"
    and eq: "diff_model sample_ddl ''mysql'' always_yes ?old ?new True Migrate_class
             = emit (add_index sample_ddl ?new [model_field_name (plain_field ''name'' ''CharField'')]
                       True) True (is_fk_m2m (plain_field ''name'' ''CharField'')) st'"
    by blast
  from m have "upgrade_operators st' = []" by (simp add: m2m_only_def Migrate_class_def)
  with eq have "diff_model sample_ddl ''mysql'' always_yes ?old ?new True Migrate_class
      = Inr (st'\<lparr>upgrade_operators := [''ALTER TABLE user ADD UNIQUE INDEX (name)'']\<rparr>)"
    by (simp add: emit_def add_index_def resolve_fk_fields_name_def sample_ddl_def table_of_def
        plain_field_def is_fk_m2m_def add_operator_def)
  with h1 m show ?thesis by blast
qed

lemma diff_column_flags_only:
  "diff_column d dialect new_model f (f\<lparr>f_index := i, f_unique := u\<rparr>) upgrade st = Inr st"
  by (simp add: diff_column_def describe_def pop_def split: option.split)

lemma diff_new_keys_one_step:
  assumes "distinct (map fst fs)" and "map_of fs k = Some f"
    and "\<forall>(k', g) \<in> set fs. map_of (fields_map old_model) k' = Some g"
    and "role f' = Plain \<or> role f' = ForeignKeyFieldInstance"
    and "\<And>s. diff_column d dialect new_model f f' upgrade s = Inr s"
    and "\<And>s. diff_column_index d old_model new_model f f' upgrade s = step s"
    and "\<And>s s2 s3. step s = Inr s2 \<Longrightarrow> m2m_only s2 s3 \<Longrightarrow> \<exists>s'. m2m_only s s' \<and> step s' = Inr s3"
  shows "\<exists>st'. m2m_only st st'
           \<and> diff_new_keys d dialect old_model new_model upgrade (AList.update k f' fs) changed st
             = and_then (step st') (\<lambda>s. Inr (changed, s))"
  using assms(1,2,3)
proof (induction fs arbitrary: st)
  case Nil
  then show ?case by simp
next
  case (Cons kg fs)
  obtain k0 g where kg: "kg = (k0, g)" by (cases kg)
  from Cons.prems(3) have rest: "\<forall>(k', g) \<in> set fs. map_of (fields_map old_model) k' = Some g"
    by simp
  show ?case
  proof (cases "k0 = k")
    case True
    with Cons.prems(2) kg have g: "g = f" by simp
    from Cons.prems(3) kg True g have old: "map_of (fields_map old_model) k = Some f" by simp
    have ex: "exclude_field f' upgrade st = (False, st)"
      using assms(4) by (rule exclude_field_column)
    have stepeq: "diff_new_keys d dialect old_model new_model upgrade
                  (AList.update k f' (kg # fs)) changed st
                = (case step st of Inl e \<Rightarrow> Inl e
                   | Inr st3 \<Rightarrow> diff_new_keys d dialect old_model new_model upgrade fs changed st3)"
      using kg True ex old by (simp add: assms(5,6))
    show ?thesis
    proof (cases "step st")
      case (Inl e)
      with stepeq have "diff_new_keys d dialect old_model new_model upgrade
                  (AList.update k f' (kg # fs)) changed st
                = and_then (step st) (\<lambda>s. Inr (changed, s))" by simp
      moreover have "m2m_only st st" by simp
      ultimately show ?thesis by blast
    next
      case (Inr st2)
      from diff_new_keys_same [OF rest, of d dialect new_model upgrade changed st2] obtain st3 where
        a: "diff_new_keys d dialect old_model new_model upgrade fs changed st2 = Inr (changed, st3)"
        and m: "m2m_only st2 st3" by blast
      from assms(7) [OF Inr m] obtain st' where
        m': "m2m_only st st'" and eq: "step st' = Inr st3" by blast
      from stepeq Inr a eq have "diff_new_keys d dialect old_model new_model upgrade
                  (AList.update k f' (kg # fs)) changed st
                = and_then (step st') (\<lambda>s. Inr (changed, s))" by simp
      with m' show ?thesis by blast
    qed
  next
    case False
    with Cons.prems(2) kg have look: "map_of fs k = Some f" by simp
    from Cons.prems(1) have dist: "distinct (map fst fs)" by simp
    from Cons.prems(3) kg have old: "map_of (fields_map old_model) k0 = Some g" by simp
    obtain ex st1 where ex: "exclude_field g upgrade st = (ex, st1)"
      by (cases "exclude_field g upgrade st")
    have m1: "m2m_only st st1" using exclude_field_m2m_only [of st g upgrade] ex by simp
    from Cons.IH [OF dist look rest, of st1] obtain st' where
      m2: "m2m_only st1 st'"
      and eq: "diff_new_keys d dialect old_model new_model upgrade (AList.update k f' fs) changed st1
               = and_then (step st') (\<lambda>s. Inr (changed, s))" by blast
    have "diff_new_keys d dialect old_model new_model upgrade (AList.update k f' (kg # fs)) changed st
          = and_then (step st') (\<lambda>s. Inr (changed, s))"
      using kg False ex old eq by simp
    with m1 m2 show ?thesis by (blast intro: m2m_only_trans)
  qed
qed

lemma emit_step_m2m:
  assumes "emit r upgrade fk s = Inr s2" and "m2m_only s2 s3"
  shows "\<exists>s'. m2m_only s s' \<and> emit r upgrade fk s' = Inr s3"
proof -
  from emit_Inr [OF assms(1)] obtain operator where
    r: "r = Inr operator" and s2: "s2 = add_operator operator upgrade fk s" by blast
  from emit_after_m2m [OF assms(2) [unfolded s2]] obtain s' where
    "m2m_only s s'" and "add_operator operator upgrade fk s' = s3" by blast
  with r show ?thesis by (auto simp add: emit_def)
qed

lemma flags_only_difference:
  assumes "distinct (map fst (fields_map old_model))"
    and "map_of (fields_map old_model) k = Some f"
    and "role f = Plain \<or> role f = ForeignKeyFieldInstance"
    and "new_model = old_model\<lparr>fields_map :=
            AList.update k (f\<lparr>f_index := i, f_unique := u\<rparr>) (fields_map old_model)\<rparr>"
  shows "\<exists>st1. m2m_only st st1
           \<and> diff_model d dialect ask old_model new_model upgrade st
             = (if (f_index f \<and> \<not> i) \<or> (f_unique f \<and> \<not> u)
                then emit (remove_index d old_model [model_field_name f] (f_unique f)) upgrade
                       (is_fk_m2m f) st1
                else if (i \<and> \<not> f_index f) \<or> (u \<and> \<not> f_unique f)
                then emit (add_index d new_model [model_field_name f] u) upgrade (is_fk_m2m f) st1
                else Inr st1)"
proof -
  define f' where "f' = f\<lparr>f_index := i, f_unique := u\<rparr>"
  define step where "step = (\<lambda>s. if (f_index f \<and> \<not> i) \<or> (f_unique f \<and> \<not> u)
                then emit (remove_index d old_model [model_field_name f] (f_unique f)) upgrade
                       (is_fk_m2m f) s
                else if (i \<and> \<not> f_index f) \<or> (u \<and> \<not> f_unique f)
                then emit (add_index d new_model [model_field_name f] u) upgrade (is_fk_m2m f) s
                else Inr s)"
  have all: "\<forall>(k', g) \<in> set (fields_map old_model). map_of (fields_map old_model) k' = Some g"
    using assms(1) by auto
  have role': "role f' = Plain \<or> role f' = ForeignKeyFieldInstance"
    using assms(3) by (simp add: f'_def)
  have col: "diff_column d dialect new_model f f' upgrade s = Inr s" for s
    unfolding f'_def by (rule diff_column_flags_only)
  have idx: "diff_column_index d old_model new_model f f' upgrade s = step s" for s
    by (simp add: diff_column_index_def is_fk_m2m_def f'_def step_def)
  have comm: "\<exists>s'. m2m_only s s' \<and> step s' = Inr s3"
    if a: "step s = Inr s2" and b: "m2m_only s2 s3" for s s2 s3
  proof (cases "(f_index f \<and> \<not> i) \<or> (f_unique f \<and> \<not> u)")
    case True
    then have st: "step = emit (remove_index d old_model [model_field_name f] (f_unique f)) upgrade
                   (is_fk_m2m f)" by (simp add: step_def)
    from emit_step_m2m [OF a [unfolded st] b] show ?thesis unfolding st .
  next
    case False
    show ?thesis
    proof (cases "(i \<and> \<not> f_index f) \<or> (u \<and> \<not> f_unique f)")
      case True
      have st: "step = emit (add_index d new_model [model_field_name f] u) upgrade
                     (is_fk_m2m f)"
        unfolding step_def using False True by (intro ext) (simp only: if_False if_True)
      from emit_step_m2m [OF a [unfolded st] b] show ?thesis unfolding st .
    next
      case none: False
      have st: "step = Inr"
        unfolding step_def using False none by (intro ext) (simp only: if_False)
      from a b have "m2m_only s s3" unfolding st by simp
      moreover have "step s3 = Inr s3" unfolding st ..
      ultimately show ?thesis by blast
    qed
  qed
  have "\<exists>st'. m2m_only st st'
           \<and> diff_new_keys d dialect old_model new_model upgrade
                (AList.update k f' (fields_map old_model)) [] st
             = and_then (step st') (\<lambda>s. Inr ([], s))"
    using assms(1,2) all role' col idx comm by (rule diff_new_keys_one_step)
  then obtain st1 where m: "m2m_only st st1"
    and eq: "diff_new_keys d dialect old_model new_model upgrade (fields_map new_model) [] st
             = and_then (step st1) (\<lambda>s. Inr ([], s))"
    by (auto simp add: assms(4) f'_def)
  have present: "\<forall>(k', g) \<in> set (fields_map old_model). map_of (fields_map new_model) k' \<noteq> None"
    by (auto simp add: assms(4) update_conv' weak_map_of_SomeI)
  have "diff_model d dialect ask old_model new_model upgrade st = step st1"
  proof (cases "step st1")
    case (Inl e)
    with eq show ?thesis by (simp add: diff_model_def)
  next
    case (Inr s)
    with eq have "diff_new_keys d dialect old_model new_model upgrade (fields_map new_model) [] st
                  = Inr ([], s)" by simp
    moreover have "indexes new_model = indexes old_model"
      and "unique_together new_model = unique_together old_model"
      by (simp_all add: assms(4))
    ultimately have "diff_model d dialect ask old_model new_model upgrade st = Inr s"
      by (simp add: diff_model_def diff_old_keys_same [OF present] add_indexes_same
          remove_indexes_same)
    with Inr show ?thesis by simp
  qed
  with m show ?thesis unfolding step_def by blast
qed

text \<open>
  C4, as amended. First part: in a pass that returns (no statement raised by the
  generator), for every column (plain or foreign key) that both models have, whatever
  else differs, a lost index or unique constraint gives a \<open>DropIndex\<close> operator in the
  list of the pass, and a gained one gives an \<open>AddIndex\<close> operator when the column
  loses none. Second part: the two are mutually exclusive. When the models differ in the
  index and unique flags of one column only, the whole pass is exactly one
  \<open>_add_operator\<close> call with the \<open>DropIndex\<close> statement if a constraint is lost (also
  when the other one is gained), else exactly one with the \<open>AddIndex\<close> statement if one
  is gained, else nothing; it raises exactly when the generator raises on that statement.
\<close>

theorem index_flags_compared:
  "(diff_model d dialect ask old_model new_model upgrade st = Inr st'
      \<and> (k, new_field) \<in> set (fields_map new_model)
      \<and> map_of (fields_map old_model) k = Some old_field
      \<and> (role new_field = Plain \<or> role new_field = ForeignKeyFieldInstance)
    \<longrightarrow> ((f_index old_field \<and> \<not> f_index new_field) \<or> (f_unique old_field \<and> \<not> f_unique new_field)
          \<longrightarrow> (\<exists>s. remove_index d old_model [model_field_name old_field] (f_unique old_field) = Inr s
                   \<and> s \<in> set (operators_of upgrade (is_fk_m2m old_field) st')))
       \<and> (\<not> ((f_index old_field \<and> \<not> f_index new_field) \<or> (f_unique old_field \<and> \<not> f_unique new_field))
          \<and> ((f_index new_field \<and> \<not> f_index old_field) \<or> (f_unique new_field \<and> \<not> f_unique old_field))
          \<longrightarrow> (\<exists>s. add_index d new_model [model_field_name new_field] (f_unique new_field) = Inr s
                   \<and> s \<in> set (operators_of upgrade (is_fk_m2m new_field) st'))))
   \<and> (distinct (map fst (fields_map old_model))
      \<and> map_of (fields_map old_model) k = Some f
      \<and> (role f = Plain \<or> role f = ForeignKeyFieldInstance)
      \<and> flags_model = old_model\<lparr>fields_map :=
            AList.update k (f\<lparr>f_index := i, f_unique := u\<rparr>) (fields_map old_model)\<rparr>
    \<longrightarrow> (\<exists>st1. m2m_only st st1
           \<and> diff_model d dialect ask old_model flags_model upgrade st
             = (if (f_index f \<and> \<not> i) \<or> (f_unique f \<and> \<not> u)
                then emit (remove_index d old_model [model_field_name f] (f_unique f)) upgrade
                       (is_fk_m2m f) st1
                else if (i \<and> \<not> f_index f) \<or> (u \<and> \<not> f_unique f)
                then emit (add_index d flags_model [model_field_name f] u) upgrade (is_fk_m2m f) st1
                else Inr st1)))"
proof (intro conjI impI)
  assume a: "diff_model d dialect ask old_model new_model upgrade st = Inr st'
      \<and> (k, new_field) \<in> set (fields_map new_model)
      \<and> map_of (fields_map old_model) k = Some old_field
      \<and> (role new_field = Plain \<or> role new_field = ForeignKeyFieldInstance)"
  then have a1: "diff_model d dialect ask old_model new_model upgrade st = Inr st'"
    and a2: "(k, new_field) \<in> set (fields_map new_model)"
    and a3: "map_of (fields_map old_model) k = Some old_field"
    and a4: "role new_field = Plain \<or> role new_field = ForeignKeyFieldInstance"
    by simp_all
  note r = index_flags_emitted [OF a1 a2 a3 a4]
  {
    assume "(f_index old_field \<and> \<not> f_index new_field) \<or> (f_unique old_field \<and> \<not> f_unique new_field)"
    with r show "\<exists>s. remove_index d old_model [model_field_name old_field] (f_unique old_field) = Inr s
                   \<and> s \<in> set (operators_of upgrade (is_fk_m2m old_field) st')" by blast
  }
  {
    assume "\<not> ((f_index old_field \<and> \<not> f_index new_field) \<or> (f_unique old_field \<and> \<not> f_unique new_field))
          \<and> ((f_index new_field \<and> \<not> f_index old_field) \<or> (f_unique new_field \<and> \<not> f_unique old_field))"
    with r show "\<exists>s. add_index d new_model [model_field_name new_field] (f_unique new_field) = Inr s
                   \<and> s \<in> set (operators_of upgrade (is_fk_m2m new_field) st')" by blast
  }
next
  assume b: "distinct (map fst (fields_map old_model))
      \<and> map_of (fields_map old_model) k = Some f
      \<and> (role f = Plain \<or> role f = ForeignKeyFieldInstance)
      \<and> flags_model = old_model\<lparr>fields_map :=
            AList.update k (f\<lparr>f_index := i, f_unique := u\<rparr>) (fields_map old_model)\<rparr>"
  then have b1: "distinct (map fst (fields_map old_model))"
    and b2: "map_of (fields_map old_model) k = Some f"
    and b3: "role f = Plain \<or> role f = ForeignKeyFieldInstance"
    and b4: "flags_model = old_model\<lparr>fields_map :=
            AList.update k (f\<lparr>f_index := i, f_unique := u\<rparr>) (fields_map old_model)\<rparr>"
    by simp_all
  from flags_only_difference [OF b1 b2 b3 b4]
  show "\<exists>st1. m2m_only st st1
           \<and> diff_model d dialect ask old_model flags_model upgrade st
             = (if (f_index f \<and> \<not> i) \<or> (f_unique f \<and> \<not> u)
                then emit (remove_index d old_model [model_field_name f] (f_unique f)) upgrade
                       (is_fk_m2m f) st1
                else if (i \<and> \<not> f_index f) \<or> (u \<and> \<not> f_unique f)
                then emit (add_index d flags_model [model_field_name f] u) upgrade (is_fk_m2m f) st1
                else Inr st1)" .
qed

theorem index_flags_compared_witness:
  "(\<exists>st'. diff_model sample_ddl ''mysql'' always_yes
             (table_of ''user'' [(''name'', indexed_name)])
             (table_of ''user'' [(''name'', unique_name)]) True Migrate_class = Inr st'
          \<and> ''ALTER TABLE user DROP INDEX (name)'' \<in> set (upgrade_operators st'))
   \<and> (\<exists>st'. diff_model sample_ddl ''mysql'' always_yes
             (table_of ''user'' [(''name'', plain_field ''name'' ''CharField'')])
             (table_of ''user'' [(''name'', unique_name)]) False Migrate_class = Inr st'
          \<and> ''ALTER TABLE user ADD UNIQUE INDEX (name)'' \<in> set (downgrade_operators st'))
   \<and> distinct (map fst (fields_map (table_of ''user'' [(''name'', indexed_name)])))
   \<and> (\<exists>st1. m2m_only Migrate_class st1
          \<and> diff_model sample_ddl ''mysql'' always_yes
              (table_of ''user'' [(''name'', indexed_name)])
              (table_of ''user'' [(''name'', unique_name)]) True Migrate_class
            = Inr (st1\<lparr>upgrade_operators := [''ALTER TABLE user DROP INDEX (name)'']\<rparr>))"
proof -
  let ?old = "table_of ''user'' [(''name'', indexed_name)]"
  let ?new = "table_of ''user'' [(''name'', unique_name)]"
  let ?plain = "table_of ''user'' [(''name'', plain_field ''name'' ''CharField'')]"
  let ?st1 = "Migrate_class\<lparr>upgrade_operators := [''ALTER TABLE user DROP INDEX (name)'']\<rparr>"
  let ?st2 = "Migrate_class\<lparr>downgrade_operators := [''ALTER TABLE user ADD UNIQUE INDEX (name)'']\<rparr>"
  have h1: "diff_model sample_ddl ''mysql'' always_yes ?old ?new True Migrate_class = Inr ?st1"
    by (simp add: differ_defs sample_defs)
  have h2: "diff_model sample_ddl ''mysql'' always_yes ?plain ?new False Migrate_class = Inr ?st2"
    by (simp add: differ_defs sample_defs)
  have m1: "(''name'', unique_name) \<in> set (fields_map ?new)" by (simp add: table_of_def)
  have l1: "map_of (fields_map ?old) ''name'' = Some indexed_name" by (simp add: table_of_def)
  have l2: "map_of (fields_map ?plain) ''name'' = Some (plain_field ''name'' ''CharField'')"
    by (simp add: table_of_def)
  have r: "role unique_name = Plain \<or> role unique_name = ForeignKeyFieldInstance"
    by (simp add: unique_name_def plain_field_def)
  have r': "role indexed_name = Plain \<or> role indexed_name = ForeignKeyFieldInstance"
    by (simp add: indexed_name_def plain_field_def)
  have dist: "distinct (map fst (fields_map ?old))" by (simp add: table_of_def)
  have new: "?new = ?old\<lparr>fields_map :=
               AList.update ''name'' (indexed_name\<lparr>f_index := False, f_unique := True\<rparr>)
                 (fields_map ?old)\<rparr>"
    by (simp add: table_of_def unique_name_def indexed_name_def plain_field_def)
  have "(f_index indexed_name \<and> \<not> f_index unique_name) \<or> (f_unique indexed_name \<and> \<not> f_unique unique_name)
        \<longrightarrow> (\<exists>s. remove_index sample_ddl ?old [model_field_name indexed_name] (f_unique indexed_name) = Inr s
               \<and> s \<in> set (operators_of True (is_fk_m2m indexed_name) ?st1))"
    using index_flags_compared [where d = sample_ddl and dialect = "''mysql''" and ask = always_yes
        and old_model = ?old and new_model = ?new and upgrade = True and st = Migrate_class
        and st' = ?st1 and k = "''name''" and new_field = unique_name and old_field = indexed_name]
      h1 m1 l1 r by blast
  then have a: "''ALTER TABLE user DROP INDEX (name)'' \<in> set (upgrade_operators ?st1)"
    by (simp add: Migrate_class_def)
  have "\<not> ((f_index (plain_field ''name'' ''CharField'') \<and> \<not> f_index unique_name)
            \<or> (f_unique (plain_field ''name'' ''CharField'') \<and> \<not> f_unique unique_name))
        \<and> ((f_index unique_name \<and> \<not> f_index (plain_field ''name'' ''CharField''))
            \<or> (f_unique unique_name \<and> \<not> f_unique (plain_field ''name'' ''CharField'')))
        \<longrightarrow> (\<exists>s. add_index sample_ddl ?new [model_field_name unique_name] (f_unique unique_name) = Inr s
               \<and> s \<in> set (operators_of False (is_fk_m2m unique_name) ?st2))"
    using index_flags_compared [where d = sample_ddl and dialect = "''mysql''" and ask = always_yes
        and old_model = ?plain and new_model = ?new and upgrade = False and st = Migrate_class
        and st' = ?st2 and k = "''name''" and new_field = unique_name
        and old_field = "plain_field ''name'' ''CharField''"]
      h2 m1 l2 r by blast
  then have b: "''ALTER TABLE user ADD UNIQUE INDEX (name)'' \<in> set (downgrade_operators ?st2)"
    by (simp add: Migrate_class_def)
  have "\<exists>st1. m2m_only Migrate_class st1
           \<and> diff_model sample_ddl ''mysql'' always_yes ?old ?new True Migrate_class
             = (if (f_index indexed_name \<and> \<not> False) \<or> (f_unique indexed_name \<and> \<not> True)
                then emit (remove_index sample_ddl ?old [model_field_name indexed_name]
                             (f_unique indexed_name)) True (is_fk_m2m indexed_name) st1
                else if (False \<and> \<not> f_index indexed_name) \<or> (True \<and> \<not> f_unique indexed_name)
                then emit (add_index sample_ddl ?new [model_field_name indexed_name] True) True
                       (is_fk_m2m indexed_name) st1
                else Inr st1)"
    using index_flags_compared [where d = sample_ddl and dialect = "''mysql''" and ask = always_yes
        and old_model = ?old and flags_model = ?new and upgrade = True and st = Migrate_class
        and k = "''name''" and f = indexed_name and i = False and u = True]
      dist l1 r' new by blast
  then obtain st1 where m: "m2m_only Migrate_class st1"
    and e: "diff_model sample_ddl ''mysql'' always_yes ?old ?new True Migrate_class
            = emit (remove_index sample_ddl ?old [model_field_name indexed_name]
                      (f_unique indexed_name)) True (is_fk_m2m indexed_name) st1"
    by (auto simp add: indexed_name_def plain_field_def)
  from m have "upgrade_operators st1 = []" by (simp add: m2m_only_def Migrate_class_def)
  with e have c: "diff_model sample_ddl ''mysql'' always_yes ?old ?new True Migrate_class
      = Inr (st1\<lparr>upgrade_operators := [''ALTER TABLE user DROP INDEX (name)'']\<rparr>)"
    by (simp add: emit_def remove_index_def resolve_fk_fields_name_def sample_ddl_def table_of_def
        indexed_name_def plain_field_def is_fk_m2m_def add_operator_def)
  from h1 h2 a b dist m c show ?thesis by blast
qed

text \<open>
  C4 as stated fails: a column that loses its index and gains a unique constraint in the
  same pass gets the \<open>DropIndex\<close> operator only; the \<open>AddIndex\<close> statement for the new
  constraint is not in the list.
\<close>

theorem index_swap_counterexample:
  "diff_model sample_ddl ''mysql'' always_yes
     (table_of ''user'' [(''name'', indexed_name)]) (table_of ''user'' [(''name'', unique_name)])
     True Migrate_class
   = Inr (Migrate_class\<lparr>upgrade_operators := [''ALTER TABLE user DROP INDEX (name)'']\<rparr>)
   \<and> add_index sample_ddl (table_of ''user'' [(''name'', unique_name)]) [''name''] True
     = Inr ''ALTER TABLE user ADD UNIQUE INDEX (name)''"
  by (simp add: differ_defs sample_defs)

section \<open>Composite unique indexes\<close>

lemma add_indexes_filter:
  "add_indexes d m unique upgrade xs ys st
   = add_indexes d m unique upgrade (filter (\<lambda>x. x \<notin> set ys) xs) [] st"
  by (induction xs arbitrary: st) (auto split: sum.splits)

lemma add_indexes_single:
  assumes "filter (\<lambda>x. x \<notin> set ys) xs = [x]"
  shows "add_indexes d m unique upgrade xs ys st = emit (add_index d m x unique) upgrade False st"
proof -
  have "add_indexes d m unique upgrade xs ys st = add_indexes d m unique upgrade [x] [] st"
    using add_indexes_filter [of d m unique upgrade xs ys st] assms by simp
  also have "\<dots> = emit (add_index d m x unique) upgrade False st"
    by (cases "emit (add_index d m x unique) upgrade False st") simp_all
  finally show ?thesis .
qed

lemma merge_after_ordinary:
  assumes "m2m_only st st'"
  shows "operators_of upgrade True (merge_operators (add_operator operator upgrade False st'))
           = operators_of upgrade True st
       \<and> operators_of upgrade False (merge_operators (add_operator operator upgrade False st'))
           = rev (filter (\<lambda>r. \<not> creates r) (operators_of upgrade True st))
             @ operators_of upgrade False st @ [operator]
             @ filter creates (operators_of upgrade True st)"
  using assms
  by (simp add: m2m_only_def operators_of_def merge_operators_def Let_def merge_loop_eq
      add_operator_def)

text \<open>
  C5, as amended: when the only difference of a model pair is one composite unique index
  that the new model has and the old one lacks, one pass is exactly one \<open>_add_operator\<close>
  call with the \<open>AddIndex\<close> statement (unique flag set) and \<open>fk=False\<close>: the operator is
  ORDINARY. The referential list of the direction is untouched, and after the sequencer
  the operator stands at its place of discovery, behind the ordinary operators found
  before it, with the non-creating referential operators in front of them and the
  creating referential operators behind it.
\<close>

theorem composite_unique_index_added_ordinary:
  assumes "distinct (map fst (fields_map old_model))"
    and "new_model = old_model\<lparr>unique_together := new_unique_together\<rparr>"
    and "set (unique_together old_model) \<subseteq> set new_unique_together"
    and "filter (\<lambda>u. u \<notin> set (unique_together old_model)) new_unique_together = [new_unique]"
  shows "\<exists>st'. m2m_only st st'
           \<and> diff_model d dialect ask old_model new_model upgrade st
             = emit (add_index d new_model new_unique True) upgrade False st'
           \<and> (\<forall>operator. add_index d new_model new_unique True = Inr operator \<longrightarrow>
                operators_of upgrade True (merge_operators (add_operator operator upgrade False st'))
                  = operators_of upgrade True st
                \<and> operators_of upgrade False
                    (merge_operators (add_operator operator upgrade False st'))
                  = rev (filter (\<lambda>r. \<not> ((\<exists>p q. r = p @ ''ADD'' @ q) \<or> (\<exists>p q. r = p @ ''CREATE'' @ q)))
                           (operators_of upgrade True st))
                    @ operators_of upgrade False st @ [operator]
                    @ filter (\<lambda>r. (\<exists>p q. r = p @ ''ADD'' @ q) \<or> (\<exists>p q. r = p @ ''CREATE'' @ q))
                        (operators_of upgrade True st))"
proof -
  have c: "creates = (\<lambda>r. (\<exists>p q. r = p @ ''ADD'' @ q) \<or> (\<exists>p q. r = p @ ''CREATE'' @ q))"
    by (rule ext) (rule creates_iff)
  have fs: "fields_map new_model = fields_map old_model" and ix: "indexes new_model = indexes old_model"
    and ut: "unique_together new_model = new_unique_together"
    by (simp_all add: assms(2))
  have a: "\<forall>(k, f) \<in> set (fields_map new_model). map_of (fields_map old_model) k = Some f"
    using assms(1) fs by auto
  have b: "\<forall>(k, f) \<in> set (fields_map old_model). map_of (fields_map new_model) k \<noteq> None"
    using assms(1) fs by (auto simp add: weak_map_of_SomeI)
  from diff_new_keys_same [OF a, of d dialect new_model upgrade "[]" st] obtain st' where
    r: "diff_new_keys d dialect old_model new_model upgrade (fields_map new_model) [] st = Inr ([], st')"
    and m: "m2m_only st st'" by blast
  have e: "diff_model d dialect ask old_model new_model upgrade st
           = emit (add_index d new_model new_unique True) upgrade False st'"
  proof (cases "emit (add_index d new_model new_unique True) upgrade False st'")
    case (Inl err)
    then show ?thesis
      by (simp add: diff_model_def r diff_old_keys_same [OF b] add_indexes_same
          remove_indexes_same ix ut add_indexes_single [OF assms(4)])
  next
    case (Inr s)
    then show ?thesis
      using assms(3)
      by (simp add: diff_model_def r diff_old_keys_same [OF b] add_indexes_same
          remove_indexes_same ix ut add_indexes_single [OF assms(4)])
  qed
  from m e merge_after_ordinary [OF m, of upgrade] show ?thesis unfolding c by blast
qed

theorem composite_unique_index_added_ordinary_witness:
  "distinct (map fst (fields_map user_model))
   \<and> set (unique_together user_model) \<subseteq> set [[''id'', ''name'']]
   \<and> filter (\<lambda>u. u \<notin> set (unique_together user_model)) [[''id'', ''name'']] = [[''id'', ''name'']]
   \<and> add_index sample_ddl (user_model\<lparr>unique_together := [[''id'', ''name'']]\<rparr>) [''id'', ''name''] True
       = Inr ''ALTER TABLE user ADD UNIQUE INDEX (id, name)''
   \<and> (\<exists>st'. m2m_only Migrate_class st'
         \<and> diff_model sample_ddl ''mysql'' always_yes user_model
             (user_model\<lparr>unique_together := [[''id'', ''name'']]\<rparr>) True Migrate_class
           = Inr (add_operator ''ALTER TABLE user ADD UNIQUE INDEX (id, name)'' True False st')
         \<and> upgrade_fk_m2m_index_operators
             (merge_operators (add_operator ''ALTER TABLE user ADD UNIQUE INDEX (id, name)'' True False st'))
           = []
         \<and> upgrade_operators
             (merge_operators (add_operator ''ALTER TABLE user ADD UNIQUE INDEX (id, name)'' True False st'))
           = [''ALTER TABLE user ADD UNIQUE INDEX (id, name)''])"
proof -
  let ?new = "user_model\<lparr>unique_together := [[''id'', ''name'']]\<rparr>"
  have h1: "distinct (map fst (fields_map user_model))" by (simp add: user_model_def table_of_def)
  have h2: "?new = user_model\<lparr>unique_together := [[''id'', ''name'']]\<rparr>" by simp
  have h3: "set (unique_together user_model) \<subseteq> set [[''id'', ''name'']]"
    by (simp add: user_model_def table_of_def)
  have h4: "filter (\<lambda>u. u \<notin> set (unique_together user_model)) [[''id'', ''name'']] = [[''id'', ''name'']]"
    by (simp add: user_model_def table_of_def)
  have r: "add_index sample_ddl ?new [''id'', ''name''] True
           = Inr ''ALTER TABLE user ADD UNIQUE INDEX (id, name)''"
    by (simp add: add_index_def resolve_fk_fields_name_def sample_ddl_def user_model_def table_of_def)
  from composite_unique_index_added_ordinary [OF h1 h2 h3 h4, of Migrate_class sample_ddl "''mysql''"
      always_yes True]
  obtain st' where m: "m2m_only Migrate_class st'"
    and e: "diff_model sample_ddl ''mysql'' always_yes user_model ?new True Migrate_class
            = emit (add_index sample_ddl ?new [''id'', ''name''] True) True False st'"
    and o: "\<forall>operator. add_index sample_ddl ?new [''id'', ''name''] True = Inr operator \<longrightarrow>
              operators_of True True (merge_operators (add_operator operator True False st'))
                = operators_of True True Migrate_class
              \<and> operators_of True False (merge_operators (add_operator operator True False st'))
                = rev (filter (\<lambda>r. \<not> ((\<exists>p q. r = p @ ''ADD'' @ q) \<or> (\<exists>p q. r = p @ ''CREATE'' @ q)))
                         (operators_of True True Migrate_class))
                  @ operators_of True False Migrate_class @ [operator]
                  @ filter (\<lambda>r. (\<exists>p q. r = p @ ''ADD'' @ q) \<or> (\<exists>p q. r = p @ ''CREATE'' @ q))
                      (operators_of True True Migrate_class)"
    by blast
  from e r have e': "diff_model sample_ddl ''mysql'' always_yes user_model ?new True Migrate_class
      = Inr (add_operator ''ALTER TABLE user ADD UNIQUE INDEX (id, name)'' True False st')"
    by (simp add: emit_def)
  from o r have "upgrade_fk_m2m_index_operators
             (merge_operators (add_operator ''ALTER TABLE user ADD UNIQUE INDEX (id, name)'' True False st'))
           = []"
    and "upgrade_operators
             (merge_operators (add_operator ''ALTER TABLE user ADD UNIQUE INDEX (id, name)'' True False st'))
           = [''ALTER TABLE user ADD UNIQUE INDEX (id, name)'']"
    by (simp_all add: operators_of_def Migrate_class_def)
  with h1 h3 h4 r m e' show ?thesis by blast
qed

text \<open>
  C5 as stated fails: in a run whose only difference is a composite unique index, the one
  \<open>AddIndex\<close> operator is in the ordinary upgrade list and both referential lists are
  empty, so the sequencer does not treat it as referential.
\<close>

theorem composite_unique_index_is_ordinary:
  "migrate sample_ddl ''mysql'' always_yes ''20200101000000'' (Some ''0_20191231235959_init.json'')
     (Some ''idx'') [(''User'', user_model)]
     [(''User'', user_model\<lparr>unique_together := [[''id'', ''name'']]\<rparr>)] Migrate_class
   = Inr (Migrate_class
            \<lparr>upgrade_operators := [''ALTER TABLE user ADD UNIQUE INDEX (id, name)''],
             downgrade_operators := [''ALTER TABLE user DROP UNIQUE INDEX (id, name)''],
             upgrade_fk_m2m_index_operators := [],
             downgrade_fk_m2m_index_operators := []\<rparr>,
          ''1_20200101000000_idx.json'',
          Some ([''ALTER TABLE user ADD UNIQUE INDEX (id, name)''],
                [''ALTER TABLE user DROP UNIQUE INDEX (id, name)'']))"
  by (simp add: version_defs differ_defs sample_defs)

section \<open>Renamed columns\<close>

text \<open>
  C2 on the code: two tables rename the column \<open>x\<close> to \<open>y\<close> and the oracle confirms both
  in the upgrade pass. \<open>_column_reflex\<close> is keyed by the column name alone and its entry
  is popped at the first use, so the downgrade pass renames the column back in table
  \<open>a\<close> only and drops and re-adds it in table \<open>b\<close>. The oracle was asked twice, both
  times in the upgrade pass.
\<close>

theorem rename_in_two_tables:
  "migrate sample_ddl ''mysql'' always_yes ''20200101000000'' (Some ''0_20191231235959_init.json'')
     (Some ''rename'') [(''A'', a_old), (''B'', b_old)] [(''A'', a_new), (''B'', b_new)] Migrate_class
   = Inr (Migrate_class
            \<lparr>upgrade_operators :=
               [''ALTER TABLE a RENAME COLUMN x TO y'', ''ALTER TABLE b RENAME COLUMN x TO y''],
             downgrade_operators :=
               [''ALTER TABLE a RENAME COLUMN y TO x'', ''ALTER TABLE b DROP COLUMN y'',
                ''ALTER TABLE b ADD x''],
             asked := [(''x'', ''y''), (''x'', ''y'')]\<rparr>,
          ''1_20200101000000_rename.json'',
          Some ([''ALTER TABLE a RENAME COLUMN x TO y'', ''ALTER TABLE b RENAME COLUMN x TO y''],
                [''ALTER TABLE a RENAME COLUMN y TO x'', ''ALTER TABLE b DROP COLUMN y'',
                 ''ALTER TABLE b ADD x'']))"
  by (simp add: version_defs differ_defs sample_defs)

section \<open>The accumulators across runs\<close>

lemma keeps_diff_new_models:
  "diff_new_models d dialect ask upgrade items old_models st = Inr st' \<Longrightarrow> keeps st st'"
proof (induction items arbitrary: st)
  case Nil
  then show ?case by simp
next
  case (Cons km items)
  obtain k new_model where km: "km = (k, new_model)" by (cases km)
  let ?r = "case map_of old_models k of
              None \<Rightarrow> emit (add_model d new_model) upgrade False st
            | Some old_model \<Rightarrow> diff_model d dialect ask old_model new_model upgrade st"
  from Cons.prems km obtain st1 where
    a: "?r = Inr st1" and b: "diff_new_models d dialect ask upgrade items old_models st1 = Inr st'"
    by (auto split: sum.splits)
  from a have "keeps st st1"
    by (auto split: option.splits dest: keeps_emit keeps_diff_model)
  with Cons.IH [OF b] show ?case by (blast intro: keeps_trans)
qed

lemma keeps_diff_old_models:
  "diff_old_models d upgrade items new_models st = Inr st' \<Longrightarrow> keeps st st'"
proof (induction items arbitrary: st)
  case Nil
  then show ?case by simp
next
  case (Cons km items)
  obtain k old_model where km: "km = (k, old_model)" by (cases km)
  show ?case
  proof (cases "map_of new_models k = None")
    case False
    with Cons.prems km have "diff_old_models d upgrade items new_models st = Inr st'" by simp
    then show ?thesis by (rule Cons.IH)
  next
    case True
    with Cons.prems km obtain st1 where
      a: "emit (remove_model d old_model) upgrade False st = Inr st1"
      and b: "diff_old_models d upgrade items new_models st1 = Inr st'"
      by (auto split: sum.splits)
    from keeps_emit [OF a] Cons.IH [OF b] show ?thesis by (rule keeps_trans)
  qed
qed

lemma keeps_diff_models:
  assumes "snd (snd (diff_models d dialect ask old_models new_models upgrade st)) = Inr st'"
  shows "keeps st st'"
proof -
  from assms obtain st1 where
    a: "diff_new_models d dialect ask upgrade (pop ''Aerich'' new_models) (pop ''Aerich'' old_models) st
          = Inr st1"
    and b: "diff_old_models d upgrade (pop ''Aerich'' old_models) (pop ''Aerich'' new_models) st1
          = Inr st'"
    by (auto simp add: diff_models_def Let_def dest!: and_then_Inr)
  from keeps_diff_new_models [OF a] keeps_diff_old_models [OF b] show ?thesis by (rule keeps_trans)
qed

lemma keeps_merge_operators: "keeps st (merge_operators st)"
  by (auto simp add: keeps_def merge_operators_def Let_def merge_loop_eq)

text \<open>
  C9, as amended: the accumulators are class attributes that no run resets. A run of
  \<open>migrate\<close> that returns starts from the state its predecessor left, and every operator
  of the four lists and every join-table name of the two dedup lists that was there
  before the run is still there after it.
\<close>

theorem migrate_keeps_state:
  assumes "migrate d dialect ask now last_version name diff_models_app app_models st
             = Inr (st', version, written)"
  shows "set (upgrade_operators st) \<subseteq> set (upgrade_operators st')
       \<and> set (downgrade_operators st) \<subseteq> set (downgrade_operators st')
       \<and> set (upgrade_fk_m2m_index_operators st) \<subseteq> set (upgrade_fk_m2m_index_operators st')
       \<and> set (downgrade_fk_m2m_index_operators st) \<subseteq> set (downgrade_fk_m2m_index_operators st')
       \<and> set (upgrade_m2m st) \<subseteq> set (upgrade_m2m st')
       \<and> set (downgrade_m2m st) \<subseteq> set (downgrade_m2m st')"
proof -
  obtain dm1 am1 r1 where p1:
    "diff_models d dialect ask diff_models_app app_models True st = (dm1, am1, r1)"
    by (cases "diff_models d dialect ask diff_models_app app_models True st")
  with assms obtain st1 where r1: "r1 = Inr st1"
    by (cases r1) (simp_all add: migrate_def)
  obtain am2 dm2 r2 where p2: "diff_models d dialect ask am1 dm1 False st1 = (am2, dm2, r2)"
    by (cases "diff_models d dialect ask am1 dm1 False st1")
  with assms p1 r1 obtain st2 where r2: "r2 = Inr st2"
    by (cases r2) (simp_all add: migrate_def)
  from assms p1 r1 p2 r2 have st': "st' = merge_operators st2"
    by (auto simp add: migrate_def Let_def split: if_splits dest!: and_then_Inr)
  have "keeps st st1" using keeps_diff_models [of d dialect ask diff_models_app app_models True st st1]
      p1 r1 by simp
  moreover have "keeps st1 st2" using keeps_diff_models [of d dialect ask am1 dm1 False st1 st2]
      p2 r2 by simp
  moreover have "keeps st2 st'" unfolding st' by (rule keeps_merge_operators)
  ultimately have "keeps st st'" by (blast intro: keeps_trans)
  then show ?thesis by (simp add: keeps_def)
qed

theorem migrate_keeps_state_witness:
  "migrate sample_ddl ''mysql'' always_yes ''20200102000000''
     (Some ''0_20200101000000_init.json'') (Some ''second'')
     [(''User'', user_model)] [(''User'', user_model), (''A'', a_old)]
     (Migrate_class\<lparr>upgrade_operators := [''CREATE TABLE user''],
                     downgrade_operators := [''DROP TABLE user'']\<rparr>)
   = Inr (Migrate_class\<lparr>upgrade_operators := [''CREATE TABLE user'', ''CREATE TABLE a''],
                         downgrade_operators := [''DROP TABLE user'', ''DROP TABLE a'']\<rparr>,
          ''1_20200102000000_second.json'',
          Some ([''CREATE TABLE user'', ''CREATE TABLE a''], [''DROP TABLE user'', ''DROP TABLE a'']))
   \<and> set [''CREATE TABLE user''] \<subseteq> set [''CREATE TABLE user'', ''CREATE TABLE a'']
   \<and> set [''DROP TABLE user''] \<subseteq> set [''DROP TABLE user'', ''DROP TABLE a'']"
proof -
  have h: "migrate sample_ddl ''mysql'' always_yes ''20200102000000''
     (Some ''0_20200101000000_init.json'') (Some ''second'')
     [(''User'', user_model)] [(''User'', user_model), (''A'', a_old)]
     (Migrate_class\<lparr>upgrade_operators := [''CREATE TABLE user''],
                     downgrade_operators := [''DROP TABLE user'']\<rparr>)
   = Inr (Migrate_class\<lparr>upgrade_operators := [''CREATE TABLE user'', ''CREATE TABLE a''],
                         downgrade_operators := [''DROP TABLE user'', ''DROP TABLE a'']\<rparr>,
          ''1_20200102000000_second.json'',
          Some ([''CREATE TABLE user'', ''CREATE TABLE a''], [''DROP TABLE user'', ''DROP TABLE a'']))"
    by (simp add: version_defs differ_defs sample_defs)
  from migrate_keeps_state [OF h] h show ?thesis by (simp add: Migrate_class_def)
qed

text \<open>
  C9 as stated fails: the class state after a first run has the operators of that run,
  and a second run in the same process, on model sets without any difference, starts
  from them and writes them into a second migration.
\<close>

theorem accumulators_leak_counterexample:
  "migrate sample_ddl ''mysql'' always_yes ''20200101000000'' None None
     [] [(''User'', user_model)] Migrate_class
   = Inr (Migrate_class\<lparr>upgrade_operators := [''CREATE TABLE user''],
                         downgrade_operators := [''DROP TABLE user'']\<rparr>,
          ''0_20200101000000_init.json'',
          Some ([''CREATE TABLE user''], [''DROP TABLE user'']))
   \<and> migrate sample_ddl ''mysql'' always_yes ''20200102000000''
       (Some ''0_20200101000000_init.json'') (Some ''second'')
       [(''User'', user_model)] [(''User'', user_model)]
       (Migrate_class\<lparr>upgrade_operators := [''CREATE TABLE user''],
                       downgrade_operators := [''DROP TABLE user'']\<rparr>)
   = Inr (Migrate_class\<lparr>upgrade_operators := [''CREATE TABLE user''],
                         downgrade_operators := [''DROP TABLE user'']\<rparr>,
          ''1_20200102000000_second.json'',
          Some ([''CREATE TABLE user''], [''DROP TABLE user'']))"
  by (simp add: version_defs differ_defs sample_defs)

section \<open>The caller's dicts\<close>

lemma map_of_pop: "map_of (pop k d) = (map_of d)(k := None)"
  by (induction d) (auto simp add: pop_def)

text \<open>
  C10: every call of \<open>diff_models\<close>, whether it returns or raises, leaves the caller's two
  dicts without the entry of the migration-history table (key \<open>Aerich\<close>) and with every
  other entry unchanged and in place.
\<close>

theorem diff_models_pops_aerich:
  "fst (diff_models d dialect ask old_models new_models upgrade st)
     = filter (\<lambda>kv. fst kv \<noteq> ''Aerich'') old_models
   \<and> fst (snd (diff_models d dialect ask old_models new_models upgrade st))
     = filter (\<lambda>kv. fst kv \<noteq> ''Aerich'') new_models
   \<and> map_of (fst (diff_models d dialect ask old_models new_models upgrade st))
     = (map_of old_models)(''Aerich'' := None)
   \<and> map_of (fst (snd (diff_models d dialect ask old_models new_models upgrade st)))
     = (map_of new_models)(''Aerich'' := None)"
  using map_of_pop [of "''Aerich''" old_models] map_of_pop [of "''Aerich''" new_models]
  by (simp add: diff_models_def Let_def pop_def)

end
